theory Spec2Isabelle
  imports Complex_Main
begin

section \<open>Terminal Pong: the simulation core of \<open>src/pong/pong.py\<close>\<close>

text \<open>
  The class \<open>PongGame\<close> is a mutable object; every method is modelled as a function from
  the object's fields (the record \<open>game\<close>) to the updated fields.

  Conventions of the embedding:
  \<^item> Python \<open>int\<close> is \<open>int\<close>; the index \<open>current_difficulty\<close>, only ever assigned \<open>1\<close> or
    \<open>(d + 1) % 3\<close>, is a \<open>nat\<close>, and the three per-difficulty tables are lists read with
    \<open>!\<close>. An index of 3 or more would raise IndexError in Python; the theorems about
    a table lookup assume \<open>current_difficulty s < 3\<close>, which holds in every reachable state
    (\<open>reachable_inv\<close>).
  \<^item> Python \<open>float\<close> is modelled by \<open>real\<close>: arithmetic is exact, rounding error of the
    IEEE operations is not represented. The one exception is the addition
    \<open>ball_dy += angle_modifier\<close> of the paddle block, whose rounding to a double is written
    out (\<open>double_round\<close>), since a property stated below is about its result. The results
    of \<open>math.cos\<close> and \<open>math.sin\<close> in \<open>reset_ball\<close> are the exact cosine and sine: what the
    library returns in doubles is not represented.
  \<^item> \<open>time.time()\<close> is a parameter \<open>now\<close> of the method that reads the clock; a reset that
    happens inside a method is stamped with that method's reading.
  \<^item> \<open>random.uniform\<close>, \<open>random.choice\<close> and \<open>random.random\<close> are parameters holding the
    value drawn.
  \<^item> \<open>stdscr.getch()\<close> is the list of key codes it returns before \<open>-1\<close>.
\<close>

subsection \<open>Data\<close>

record game =
  height :: int
  width :: int
  target_score :: int
  single_player :: bool
  current_difficulty :: nat
  ball_speed :: real
  ai_speed :: real
  ai_prediction :: real
  paddle_height :: int
  paddle_width :: int
  p1_y :: real
  p1_x :: int
  p1_score :: int
  p1_velocity :: real
  p2_y :: real
  p2_x :: int
  p2_score :: int
  p2_velocity :: real
  paddle_speed :: real
  paddle_acceleration :: real
  last_paddle_update :: real
  p1_moving_up :: bool
  p1_moving_down :: bool
  p2_moving_up :: bool
  p2_moving_down :: bool
  ball_x :: real
  ball_y :: real
  ball_dx :: real
  ball_dy :: real
  last_ball_move :: real
  game_over :: bool
  winner :: "string option"
  paused :: bool
  show_mode_change :: bool
  mode_change_time :: real
  show_difficulty_change :: bool
  difficulty_change_time :: real
  key_states :: "string \<Rightarrow> bool"
  last_key_time :: "string \<Rightarrow> real"
  continuous_keys :: "string set"

text \<open>The constant tables of \<open>__init__\<close>, \<open>reset_ball\<close> and \<open>update_difficulty_settings\<close>.\<close>

definition difficulty_levels :: "string list" where
  "difficulty_levels = [''Easy'', ''Medium'', ''Hard'']"

definition ball_speeds :: "real list" where
  "ball_speeds = [4 / 100, 2 / 100, 1 / 100]"

definition ai_base_speed :: real where
  "ai_base_speed = 8 / 10"

definition ai_base_prediction :: real where
  "ai_base_prediction = 3 / 10"

definition base_speed :: real where
  "base_speed = 2"

definition difficulty_speed_multipliers :: "real list" where
  "difficulty_speed_multipliers = [8 / 10, 1, 14 / 10]"

definition difficulty_multipliers :: "real list" where
  "difficulty_multipliers = [6 / 10, 8 / 10, 1]"

text \<open>Python 3's \<open>int(round(x))\<close> on a float: to the nearest integer, ties to the even one.\<close>

definition py_round :: "real \<Rightarrow> int" where
  "py_round x =
     (let f = \<lfloor>x\<rfloor>; d = x - of_int f
      in if d < 1 / 2 then f
         else if 1 / 2 < d then f + 1
         else if even f then f else f + 1)"

text \<open>Rounding of a real to an IEEE 754 double (binary64), to nearest with ties to the
  even significand: 53 significant bits, and a spacing of at least \<open>2^-1074\<close> (the
  subnormal range). \<open>pow2 e\<close> is \<open>2^e\<close>. Results beyond the largest double (infinities)
  and NaN are not represented.\<close>

definition pow2 :: "int \<Rightarrow> real" where
  "pow2 e = (if 0 \<le> e then 2 ^ nat e else 1 / 2 ^ nat (- e))"

definition double_round :: "real \<Rightarrow> real" where
  "double_round x =
     (if x = 0 then 0
      else
        (let e = max (\<lfloor>log 2 \<bar>x\<bar>\<rfloor> - 52) (- 1074)
         in of_int (py_round (x / pow2 e)) * pow2 e))"

subsection \<open>Resets and difficulty\<close>

text \<open>\<open>reset_ball\<close>: \<open>angle0\<close> is the value of \<open>random.uniform(-pi/4, pi/4)\<close>, \<open>coin\<close> the value of
  \<open>random.choice([True, False])\<close>.\<close>

definition reset_ball :: "real \<Rightarrow> bool \<Rightarrow> real \<Rightarrow> game \<Rightarrow> game" where
  "reset_ball angle0 coin now s =
     (let angle = (if coin then angle0 + pi else angle0);
          speed = base_speed * (difficulty_speed_multipliers ! current_difficulty s)
      in s\<lparr>ball_x := of_int (width s div 2),
           ball_y := of_int (height s div 2),
           ball_dx := speed * cos angle,
           ball_dy := speed * sin angle,
           last_ball_move := now\<rparr>)"

definition reset_game :: "real \<Rightarrow> bool \<Rightarrow> real \<Rightarrow> game \<Rightarrow> game" where
  "reset_game angle0 coin now s =
     (let s1 = s\<lparr>paddle_height := 5, paddle_width := 1\<rparr>;
          s2 = s1\<lparr>p1_y := of_int (height s1 div 2 - paddle_height s1 div 2),
                  p1_x := 2, p1_score := 0, p1_velocity := 0\<rparr>;
          s3 = s2\<lparr>p2_y := of_int (height s2 div 2 - paddle_height s2 div 2),
                  p2_x := width s2 - 3, p2_score := 0, p2_velocity := 0\<rparr>;
          s4 = s3\<lparr>paddle_speed := 15, paddle_acceleration := 50,
                  last_paddle_update := now\<rparr>;
          s5 = s4\<lparr>p1_moving_up := False, p1_moving_down := False,
                  p2_moving_up := False, p2_moving_down := False\<rparr>;
          s6 = reset_ball angle0 coin now s5
      in s6\<lparr>game_over := False, winner := None, paused := False,
            show_mode_change := False, mode_change_time := 0,
            show_difficulty_change := False, difficulty_change_time := 0\<rparr>)"

definition update_difficulty_settings :: "game \<Rightarrow> game" where
  "update_difficulty_settings s =
     (let multiplier = difficulty_multipliers ! current_difficulty s
      in s\<lparr>ai_speed := ai_base_speed * multiplier,
           ai_prediction := ai_base_prediction * multiplier,
           ball_speed := ball_speeds ! current_difficulty s\<rparr>)"

definition cycle_difficulty :: "real \<Rightarrow> bool \<Rightarrow> real \<Rightarrow> game \<Rightarrow> game" where
  "cycle_difficulty angle0 coin now s =
     (let s1 = s\<lparr>current_difficulty := (current_difficulty s + 1) mod length difficulty_levels\<rparr>;
          s2 = update_difficulty_settings s1;
          s3 = s2\<lparr>show_difficulty_change := True, difficulty_change_time := now\<rparr>
      in if \<not> game_over s3 then reset_game angle0 coin now s3 else s3)"

text \<open>\<open>__init__\<close> for a screen of \<open>h\<close> rows and \<open>w\<close> columns. The fields that \<open>__init__\<close> leaves
  to \<open>reset_game\<close> and \<open>update_difficulty_settings\<close> do not exist before those calls; the
  record needs a value for them, which both calls overwrite.\<close>

definition unset_fields :: "int \<Rightarrow> int \<Rightarrow> game" where
  "unset_fields h w =
     \<lparr>height = h, width = w, target_score = 10, single_player = True,
      current_difficulty = 1, ball_speed = ball_speeds ! 1,
      ai_speed = 0, ai_prediction = 0,
      paddle_height = 0, paddle_width = 0,
      p1_y = 0, p1_x = 0, p1_score = 0, p1_velocity = 0,
      p2_y = 0, p2_x = 0, p2_score = 0, p2_velocity = 0,
      paddle_speed = 0, paddle_acceleration = 0, last_paddle_update = 0,
      p1_moving_up = False, p1_moving_down = False,
      p2_moving_up = False, p2_moving_down = False,
      ball_x = 0, ball_y = 0, ball_dx = 0, ball_dy = 0, last_ball_move = 0,
      game_over = False, winner = None, paused = False,
      show_mode_change = False, mode_change_time = 0,
      show_difficulty_change = False, difficulty_change_time = 0,
      key_states = (\<lambda>k. False), last_key_time = (\<lambda>k. 0), continuous_keys = {}\<rparr>"

definition init :: "int \<Rightarrow> int \<Rightarrow> real \<Rightarrow> bool \<Rightarrow> real \<Rightarrow> game" where
  "init h w angle0 coin now =
     (update_difficulty_settings (reset_game angle0 coin now (unset_fields h w)))
       \<lparr>key_states := (\<lambda>k. False), last_key_time := (\<lambda>k. 0), continuous_keys := {}\<rparr>"

subsection \<open>Paddle motion\<close>

text \<open>The block "Smooth acceleration/deceleration", written three times in the source
  (player 1, player 2, AI) with the same shape: the new velocity from the target
  velocity, the current velocity, the acceleration and the capped time step.\<close>

definition accelerate :: "real \<Rightarrow> real \<Rightarrow> real \<Rightarrow> real \<Rightarrow> real" where
  "accelerate target v accel dt =
     (let velocity_diff = target - v
      in if 1 / 10 < \<bar>velocity_diff\<bar> then
           (let acceleration = accel * (if 0 < velocity_diff then 1 else - 1);
                v' = v + acceleration * dt
            in if (0 < velocity_diff \<and> target < v') \<or> (velocity_diff < 0 \<and> v' < target)
               then target else v')
         else target)"

text \<open>The target velocity of a human paddle: up wins over down.\<close>

definition target_velocity :: "bool \<Rightarrow> bool \<Rightarrow> real \<Rightarrow> real" where
  "target_velocity up down speed = (if up then - speed else if down then speed else 0)"

text \<open>The interval test of the block "Update position".\<close>

definition in_field :: "game \<Rightarrow> real \<Rightarrow> bool" where
  "in_field s y \<longleftrightarrow> 1 \<le> y \<and> y \<le> of_int (height s - paddle_height s - 1)"

definition capped_dt :: "game \<Rightarrow> real \<Rightarrow> real" where
  "capped_dt s now = min (now - last_paddle_update s) (1 / 10)"

definition new_p1_velocity :: "game \<Rightarrow> real \<Rightarrow> real" where
  "new_p1_velocity s dt =
     accelerate (target_velocity (p1_moving_up s) (p1_moving_down s) (paddle_speed s))
       (p1_velocity s) (paddle_acceleration s) dt"

definition new_p2_velocity :: "game \<Rightarrow> real \<Rightarrow> real" where
  "new_p2_velocity s dt =
     accelerate (target_velocity (p2_moving_up s) (p2_moving_down s) (paddle_speed s))
       (p2_velocity s) (paddle_acceleration s) dt"

definition new_p1_y :: "game \<Rightarrow> real \<Rightarrow> real" where
  "new_p1_y s dt = p1_y s + new_p1_velocity s dt * dt"

definition new_p2_y :: "game \<Rightarrow> real \<Rightarrow> real" where
  "new_p2_y s dt = p2_y s + new_p2_velocity s dt * dt"

definition update_p1 :: "real \<Rightarrow> game \<Rightarrow> game" where
  "update_p1 dt s =
     (if in_field s (new_p1_y s dt)
      then s\<lparr>p1_velocity := new_p1_velocity s dt, p1_y := new_p1_y s dt\<rparr>
      else s\<lparr>p1_velocity := 0\<rparr>)"

definition update_p2 :: "real \<Rightarrow> game \<Rightarrow> game" where
  "update_p2 dt s =
     (if in_field s (new_p2_y s dt)
      then s\<lparr>p2_velocity := new_p2_velocity s dt, p2_y := new_p2_y s dt\<rparr>
      else s\<lparr>p2_velocity := 0\<rparr>)"

definition update_paddle_movement :: "real \<Rightarrow> game \<Rightarrow> game" where
  "update_paddle_movement now s =
     (let dt = capped_dt s now;
          s1 = update_p1 dt (s\<lparr>last_paddle_update := now\<rparr>)
      in if \<not> single_player s1 then update_p2 dt s1 else s1)"

subsection \<open>The AI paddle\<close>

text \<open>\<open>roll\<close> is the value of \<open>random.random()\<close>, \<open>noise\<close> that of \<open>random.uniform(-2, 2)\<close>.
  The method reads \<open>last_paddle_update\<close> and does not write it.\<close>

definition predicted_y :: "game \<Rightarrow> real \<Rightarrow> real \<Rightarrow> real" where
  "predicted_y s roll noise =
     (if 0 < ball_dx s then
        (let time_to_paddle = (of_int (p2_x s) - ball_x s) / \<bar>ball_dx s\<bar>;
             p = ball_y s + ball_dy s * time_to_paddle * ai_prediction s
         in if roll < 1 / 10 then p + noise else p)
      else of_int (height s div 2))"

definition ai_target_velocity :: "game \<Rightarrow> real \<Rightarrow> real \<Rightarrow> real" where
  "ai_target_velocity s roll noise =
     (let paddle_center = p2_y s + of_int (paddle_height s div 2);
          distance_to_target = predicted_y s roll noise - paddle_center
      in if 1 / 2 < \<bar>distance_to_target\<bar> then
           (let max_ai_speed = paddle_speed s * ai_speed s;
                tv = max_ai_speed * (if 0 < distance_to_target then 1 else - 1);
                velocity_scale = min 1 (\<bar>distance_to_target\<bar> / 3)
            in tv * velocity_scale)
         else 0)"

definition update_ai_paddle :: "real \<Rightarrow> real \<Rightarrow> real \<Rightarrow> game \<Rightarrow> game" where
  "update_ai_paddle now roll noise s =
     (if \<not> single_player s \<or> paused s \<or> game_over s then s
      else
        (let dt = capped_dt s now;
             v = accelerate (ai_target_velocity s roll noise) (p2_velocity s)
                   (paddle_acceleration s * (8 / 10)) dt;
             new_p2_y = p2_y s + v * dt
         in if in_field s new_p2_y
            then s\<lparr>p2_velocity := v, p2_y := new_p2_y\<rparr>
            else s\<lparr>p2_velocity := 0\<rparr>))"

subsection \<open>The ball\<close>

text \<open>\<open>update_ball\<close> is a time gate followed by four blocks, run in this order:
  integration, "Ball collision with top and bottom walls", "Ball collision with paddles"
  (left, then right) and "Scoring".\<close>

definition move_ball :: "game \<Rightarrow> game" where
  "move_ball s = s\<lparr>ball_x := ball_x s + ball_dx s, ball_y := ball_y s + ball_dy s\<rparr>"

definition wall_collision :: "game \<Rightarrow> game" where
  "wall_collision s =
     (if ball_y s \<le> 1 \<or> of_int (height s - 2) \<le> ball_y s
      then s\<lparr>ball_dy := - ball_dy s,
             ball_y := max 2 (min (ball_y s) (of_int (height s - 3)))\<rparr>
      else s)"

definition hit_pos :: "game \<Rightarrow> real \<Rightarrow> real" where
  "hit_pos s paddle_y =
     of_int (py_round (ball_y s) - py_round paddle_y) / of_int (paddle_height s - 1)"

definition angle_modifier :: "game \<Rightarrow> real \<Rightarrow> real" where
  "angle_modifier s paddle_y = (hit_pos s paddle_y - 1 / 2) * (1 / 2)"

definition left_hit :: "game \<Rightarrow> bool" where
  "left_hit s \<longleftrightarrow>
     py_round (ball_x s) \<le> p1_x s + paddle_width s \<and>
     py_round (p1_y s) \<le> py_round (ball_y s) \<and>
     py_round (ball_y s) \<le> py_round (p1_y s) + paddle_height s - 1 \<and>
     ball_dx s < 0"

definition right_hit :: "game \<Rightarrow> bool" where
  "right_hit s \<longleftrightarrow>
     p2_x s - 1 \<le> py_round (ball_x s) \<and>
     py_round (p2_y s) \<le> py_round (ball_y s) \<and>
     py_round (ball_y s) \<le> py_round (p2_y s) + paddle_height s - 1 \<and>
     0 < ball_dx s"

definition left_paddle_collision :: "game \<Rightarrow> game" where
  "left_paddle_collision s =
     (if left_hit s
      then s\<lparr>ball_dx := \<bar>ball_dx s\<bar>,
             ball_dy := double_round (ball_dy s + angle_modifier s (p1_y s))\<rparr>
      else s)"

definition right_paddle_collision :: "game \<Rightarrow> game" where
  "right_paddle_collision s =
     (if right_hit s
      then s\<lparr>ball_dx := - \<bar>ball_dx s\<bar>,
             ball_dy := double_round (ball_dy s + angle_modifier s (p2_y s))\<rparr>
      else s)"

definition paddle_collision :: "game \<Rightarrow> game" where
  "paddle_collision s = right_paddle_collision (left_paddle_collision s)"

definition scoring :: "real \<Rightarrow> bool \<Rightarrow> real \<Rightarrow> game \<Rightarrow> game" where
  "scoring angle0 coin now s =
     (if ball_x s < 0 then
        (let s1 = s\<lparr>p2_score := p2_score s + 1\<rparr>
         in if target_score s1 \<le> p2_score s1
            then s1\<lparr>game_over := True, winner := Some ''Player 2''\<rparr>
            else reset_ball angle0 coin now s1)
      else if of_int (width s) < ball_x s then
        (let s1 = s\<lparr>p1_score := p1_score s + 1\<rparr>
         in if target_score s1 \<le> p1_score s1
            then s1\<lparr>game_over := True, winner := Some ''Player 1''\<rparr>
            else reset_ball angle0 coin now s1)
      else s)"

definition ball_gate_open :: "game \<Rightarrow> real \<Rightarrow> bool" where
  "ball_gate_open s now \<longleftrightarrow> \<not> (now - last_ball_move s < ball_speed s)"

definition update_ball :: "real \<Rightarrow> real \<Rightarrow> bool \<Rightarrow> game \<Rightarrow> game" where
  "update_ball now angle0 coin s =
     (if \<not> ball_gate_open s now then s
      else scoring angle0 coin now
             (paddle_collision (wall_collision (move_ball (s\<lparr>last_ball_move := now\<rparr>)))))"

subsection \<open>Input\<close>

text \<open>The key codes the source compares with: \<open>ord\<close> of the ASCII letters, and the curses
  codes of the two arrow keys.\<close>

definition KEY_DOWN :: int where "KEY_DOWN = 258"
definition KEY_UP :: int where "KEY_UP = 259"

definition ord_of :: "char \<Rightarrow> int" where
  "ord_of c = of_char c"

text \<open>A key event is the code returned by \<open>getch\<close> together with the random draws that a
  reset triggered by this key consumes (unused otherwise).\<close>

type_synonym key_event = "int \<times> real \<times> bool"

text \<open>The movement-key part of the loop body: the counterpart's flag is cleared, then
  the key is marked held, stamped and added to \<open>continuous_keys\<close>.\<close>

definition key_name_of :: "int \<Rightarrow> string option" where
  "key_name_of key =
     (if key = ord_of CHR ''w'' \<or> key = ord_of CHR ''W'' then Some ''w''
      else if key = ord_of CHR ''s'' \<or> key = ord_of CHR ''S'' then Some ''s''
      else if key = KEY_UP then Some ''up''
      else if key = KEY_DOWN then Some ''down''
      else None)"

definition counterpart :: "string \<Rightarrow> string" where
  "counterpart k =
     (if k = ''w'' then ''s'' else if k = ''s'' then ''w''
      else if k = ''up'' then ''down'' else ''up'')"

definition track_key :: "real \<Rightarrow> int \<Rightarrow> game \<Rightarrow> game" where
  "track_key current_time key s =
     (case key_name_of key of
        None \<Rightarrow> s
      | Some k \<Rightarrow>
          s\<lparr>key_states := (key_states s)(counterpart k := False, k := True),
            last_key_time := (last_key_time s)(k := current_time),
            continuous_keys := insert k (continuous_keys s)\<rparr>)"

text \<open>One iteration of the \<open>while True\<close> loop for a key other than \<open>q\<close>/\<open>Q\<close> (which leaves
  the method at once with \<open>False\<close>).\<close>

definition handle_key :: "real \<Rightarrow> key_event \<Rightarrow> game \<Rightarrow> game" where
  "handle_key current_time ev s =
     (case ev of (key, angle0, coin) \<Rightarrow>
        if key = ord_of CHR ''m'' \<or> key = ord_of CHR ''M'' then
          (let s1 = s\<lparr>single_player := \<not> single_player s,
                      show_mode_change := True, mode_change_time := current_time\<rparr>
           in if \<not> game_over s1 then reset_game angle0 coin current_time s1 else s1)
        else if key = ord_of CHR ''d'' \<or> key = ord_of CHR ''D'' then
          cycle_difficulty angle0 coin current_time s
        else if game_over s then
          (if key = ord_of CHR ''r'' \<or> key = ord_of CHR ''R''
           then reset_game angle0 coin current_time s else s)
        else if key = ord_of CHR '' '' then s\<lparr>paused := \<not> paused s\<rparr>
        else track_key current_time key s)"

fun process_keys :: "real \<Rightarrow> key_event list \<Rightarrow> game \<Rightarrow> bool \<times> game" where
  "process_keys current_time [] s = (True, s)"
| "process_keys current_time (ev # evs) s =
     (if fst ev = ord_of CHR ''q'' \<or> fst ev = ord_of CHR ''Q'' then (False, s)
      else process_keys current_time evs (handle_key current_time ev s))"

text \<open>The loop over \<open>list(self.continuous_keys)\<close>: each key of the set is handled on its
  own, so the order of the iteration does not matter.\<close>

definition key_timeout :: real where
  "key_timeout = 8 / 100"

definition expired :: "game \<Rightarrow> real \<Rightarrow> string \<Rightarrow> bool" where
  "expired s current_time k \<longleftrightarrow> key_timeout < current_time - last_key_time s k"

definition release_keys :: "real \<Rightarrow> game \<Rightarrow> game" where
  "release_keys current_time s =
     s\<lparr>key_states :=
         (\<lambda>k. if k \<in> continuous_keys s then \<not> expired s current_time k else key_states s k),
       continuous_keys := {k \<in> continuous_keys s. \<not> expired s current_time k}\<rparr>"

definition update_movement_state :: "game \<Rightarrow> game" where
  "update_movement_state s =
     (if \<not> game_over s \<and> \<not> paused s then
        (let s1 = s\<lparr>p1_moving_up := key_states s ''w'', p1_moving_down := key_states s ''s''\<rparr>
         in if \<not> single_player s1
            then s1\<lparr>p2_moving_up := key_states s1 ''up'',
                    p2_moving_down := key_states s1 ''down''\<rparr>
            else s1\<lparr>p2_moving_up := False, p2_moving_down := False\<rparr>)
      else s\<lparr>p1_moving_up := False, p1_moving_down := False,
             p2_moving_up := False, p2_moving_down := False\<rparr>)"

text \<open>\<open>handle_input\<close> returns \<open>False\<close> exactly when a quit key was read; the fields then keep
  what the keys before it did. (\<open>getch\<close> in no-delay mode returns \<open>-1\<close> when no key is
  waiting and does not raise, so the handler of \<open>curses.error\<close> has no branch here.)\<close>

definition handle_input :: "real \<Rightarrow> key_event list \<Rightarrow> game \<Rightarrow> bool \<times> game" where
  "handle_input current_time evs s =
     (case process_keys current_time evs s of
        (False, s') \<Rightarrow> (False, s')
      | (True, s') \<Rightarrow> (True, update_movement_state (release_keys current_time s')))"

subsection \<open>The main loop\<close>

text \<open>What one iteration of \<open>run\<close> reads from outside: the keys, a clock reading for each
  method that reads the clock, and the random draws.\<close>

record tick_env =
  keys :: "key_event list"
  t_input :: real
  t_ball :: real
  t_ai :: real
  t_paddle :: real
  t_draw :: real
  ball_angle :: real
  ball_coin :: bool
  ai_roll :: real
  ai_noise :: real

text \<open>The only fields \<open>draw\<close> writes are the two notification flags, in \<open>draw_scores\<close>.\<close>

definition draw :: "real \<Rightarrow> game \<Rightarrow> game" where
  "draw now s =
     (let s1 = (if show_mode_change s \<and> now - mode_change_time s < 2 then s
                else s\<lparr>show_mode_change := False\<rparr>)
      in if show_difficulty_change s1 \<and> now - difficulty_change_time s1 < 2 then s1
         else s1\<lparr>show_difficulty_change := False\<rparr>)"

text \<open>One iteration of the loop of \<open>run\<close>; the boolean is \<open>False\<close> when the loop breaks.\<close>

definition tick :: "tick_env \<Rightarrow> game \<Rightarrow> bool \<times> game" where
  "tick e s =
     (case handle_input (t_input e) (keys e) s of
        (False, s1) \<Rightarrow> (False, s1)
      | (True, s1) \<Rightarrow>
          (let s2 = (if \<not> game_over s1 \<and> \<not> paused s1
                     then update_ai_paddle (t_ai e) (ai_roll e) (ai_noise e)
                            (update_ball (t_ball e) (ball_angle e) (ball_coin e) s1)
                     else s1);
               s3 = (if \<not> game_over s2 \<and> \<not> paused s2
                     then update_paddle_movement (t_paddle e) s2 else s2)
           in (True, draw (t_draw e) s3)))"

subsection \<open>Concrete games\<close>

text \<open>The scenario of the specification: a field of 80 columns and 24 rows, Medium
  difficulty, the first ball served to the right along the horizontal, clock at 0.\<close>

definition scenario :: game where
  "scenario = init 24 80 0 False 0"

definition left_exit :: game where
  "left_exit = scenario\<lparr>ball_x := 1, ball_y := 20, ball_dx := - 2, ball_dy := 0\<rparr>"

definition right_exit_match_point :: game where
  "right_exit_match_point =
     scenario\<lparr>ball_x := 79, ball_y := 20, ball_dx := 2, ball_dy := 0, p1_score := 9\<rparr>"

subsection \<open>Reachable states\<close>

text \<open>What every state of a running game satisfies. \<open>main\<close> starts the game only on a
  screen of at least 20 rows and 60 columns.\<close>

definition game_inv :: "game \<Rightarrow> bool" where
  "game_inv s \<longleftrightarrow>
     20 \<le> height s \<and> 60 \<le> width s \<and> target_score s = 10 \<and>
     paddle_height s = 5 \<and> paddle_width s = 1 \<and> p1_x s = 2 \<and> p2_x s = width s - 3 \<and>
     paddle_speed s = 15 \<and> paddle_acceleration s = 50 \<and>
     current_difficulty s < 3 \<and>
     in_field s (p1_y s) \<and> in_field s (p2_y s) \<and>
     0 \<le> p1_score s \<and> p1_score s \<le> target_score s \<and>
     0 \<le> p2_score s \<and> p2_score s \<le> target_score s \<and>
     (\<not> game_over s \<longrightarrow> p1_score s < target_score s \<and> p2_score s < target_score s) \<and>
     (winner s \<noteq> None \<longleftrightarrow> game_over s)"

text \<open>The states of the object at the points between the method calls of \<open>run\<close>:
  \<open>__init__\<close> behind the size check of \<open>main\<close>, then any of the calls the loop makes, the
  three updates under the loop's guard \<open>not game_over and not paused\<close>. Every state the
  loop of \<open>run\<close> produces is among them (\<open>tick_reachable\<close>).\<close>

inductive reachable :: "game \<Rightarrow> bool" where
  r_init: "20 \<le> h \<Longrightarrow> 60 \<le> w \<Longrightarrow> reachable (init h w angle0 coin now)"
| r_input: "reachable s \<Longrightarrow> reachable (snd (handle_input now evs s))"
| r_ball: "reachable s \<Longrightarrow> \<not> game_over s \<Longrightarrow> \<not> paused s \<Longrightarrow>
           reachable (update_ball now angle0 coin s)"
| r_ai: "reachable s \<Longrightarrow> \<not> game_over s \<Longrightarrow> \<not> paused s \<Longrightarrow>
         reachable (update_ai_paddle now roll noise s)"
| r_paddle: "reachable s \<Longrightarrow> \<not> game_over s \<Longrightarrow> \<not> paused s \<Longrightarrow>
             reachable (update_paddle_movement now s)"
| r_draw: "reachable s \<Longrightarrow> reachable (draw now s)"

text \<open>Key events that trigger no reset (their draws are not looked at).\<close>

definition press_w :: key_event where "press_w = (ord_of CHR ''w'', 0, False)"
definition press_s :: key_event where "press_s = (ord_of CHR ''s'', 0, False)"

text \<open>Consecutive calls of \<open>update_paddle_movement\<close>, one per clock reading.\<close>

fun paddle_run :: "real list \<Rightarrow> game \<Rightarrow> game" where
  "paddle_run [] s = s"
| "paddle_run (t # ts) s = paddle_run ts (update_paddle_movement t s)"

text \<open>Player 1 presses \<open>s\<close> in the scenario, then six frames of 0.1 s pass.\<close>

definition holding_down :: game where
  "holding_down = snd (handle_input 0 [press_s] scenario)"

definition near_bottom :: game where
  "near_bottom = paddle_run [1 / 10, 2 / 10, 3 / 10, 4 / 10, 5 / 10, 6 / 10] holding_down"

text \<open>A game in progress at 3 : 4, and the same game won by Player 1.\<close>

definition mid_game :: game where
  "mid_game = scenario\<lparr>p1_score := 3, p2_score := 4, p1_y := 5, p2_y := 16,
     ball_x := 20, ball_y := 7\<rparr>"

definition finished_game :: game where
  "finished_game = mid_game\<lparr>p1_score := 10, game_over := True, winner := Some ''Player 1''\<rparr>"

text \<open>Two situations a tick that starts with the game over can leave behind: the game
  is still over with the result of \<open>s0\<close>, or it was reset and the ball is at the centre.\<close>

definition fresh_game :: "game \<Rightarrow> bool" where
  "fresh_game s \<longleftrightarrow>
     \<not> game_over s \<and> winner s = None \<and> p1_score s = 0 \<and> p2_score s = 0 \<and>
     ball_x s = of_int (width s div 2) \<and> \<bar>ball_dx s\<bar> \<le> 14 / 5"

definition still_over :: "game \<Rightarrow> game \<Rightarrow> bool" where
  "still_over s0 s \<longleftrightarrow>
     game_over s \<and> winner s = winner s0 \<and>
     p1_score s = p1_score s0 \<and> p2_score s = p2_score s0"

text \<open>A match played to the end. \<open>ball_run n\<close> calls \<open>update_ball\<close> up to \<open>n\<close> times under the
  guard of \<open>run\<close>, one second apart, every serve drawn to the left along the horizontal;
  \<open>points k\<close> is \<open>k\<close> times sixteen such calls. In \<open>dodging\<close> player 1 has moved the paddle
  out of the ball's row on a field of 60 by 20; \<open>flying_left x\<close> describes that game with
  the ball at \<open>x\<close> on its way to the left edge.\<close>

fun ball_run :: "nat \<Rightarrow> game \<Rightarrow> game" where
  "ball_run 0 s = s"
| "ball_run (Suc n) s =
     (if game_over s \<or> paused s then s
      else ball_run n (update_ball (last_ball_move s + 1) 0 True s))"

fun points :: "nat \<Rightarrow> game \<Rightarrow> game" where
  "points 0 s = s"
| "points (Suc k) s = points k (ball_run 16 s)"

definition flying_left :: "real \<Rightarrow> game \<Rightarrow> bool" where
  "flying_left x s \<longleftrightarrow>
     height s = 20 \<and> width s = 60 \<and> paddle_height s = 5 \<and> paddle_width s = 1 \<and>
     p1_x s = 2 \<and> p2_x s = 57 \<and> p1_y s = 5 \<and> p2_y s = 8 \<and>
     target_score s = 10 \<and> current_difficulty s = 1 \<and> ball_speed s = 1 / 50 \<and>
     ball_x s = x \<and> ball_y s = 10 \<and> ball_dx s = - 2 \<and> ball_dy s = 0 \<and>
     \<not> game_over s \<and> \<not> paused s \<and> p1_score s = 0 \<and> winner s = None"

definition dodging :: game where
  "dodging = paddle_run [1 / 10, 2 / 10, 3 / 10] (snd (handle_input 0 [press_w] (init 20 60 0 True 0)))"

definition match_end :: game where
  "match_end = ball_run 16 (points 9 dodging)"

text \<open>An iteration of \<open>run\<close> without keys, and one in which \<open>r\<close> was pressed.\<close>

definition idle_tick :: tick_env where
  "idle_tick = \<lparr>keys = [], t_input = 200, t_ball = 200, t_ai = 200, t_paddle = 200,
     t_draw = 200, ball_angle = 0, ball_coin = False, ai_roll = 1 / 2, ai_noise = 0\<rparr>"

definition restart_tick :: tick_env where
  "restart_tick = idle_tick\<lparr>keys := [(ord_of CHR ''r'', 0, False)]\<rparr>"

text \<open>For a run of \<open>update_paddle_movement\<close> from the clock reading \<open>t\<close>: the readings do not
  go back; the sum of the capped time steps; no step of player 1 is refused at a
  boundary.\<close>

fun nondecreasing :: "real \<Rightarrow> real list \<Rightarrow> bool" where
  "nondecreasing t [] = True"
| "nondecreasing t (u # us) = (t \<le> u \<and> nondecreasing u us)"

fun capped_elapsed :: "real \<Rightarrow> real list \<Rightarrow> real" where
  "capped_elapsed t [] = 0"
| "capped_elapsed t (u # us) = min (u - t) (1 / 10) + capped_elapsed u us"

fun p1_unobstructed :: "real list \<Rightarrow> game \<Rightarrow> bool" where
  "p1_unobstructed [] s = True"
| "p1_unobstructed (t # ts) s =
     (in_field s (new_p1_y s (capped_dt s t)) \<and> p1_unobstructed ts (update_paddle_movement t s))"

text \<open>Ten frames of 0.1 s, and player 1 holding \<open>s\<close> on a field of 40 rows, where the
  paddle has room to move down for a second.\<close>

definition ten_frames :: "real list" where
  "ten_frames = [1 / 10, 2 / 10, 3 / 10, 4 / 10, 5 / 10, 6 / 10, 7 / 10, 8 / 10, 9 / 10, 1]"

definition holding_down_tall :: game where
  "holding_down_tall = snd (handle_input 0 [press_s] (init 40 80 0 False 0))"














section \<open>Properties\<close>

subsection \<open>Unfolding and evaluation\<close>

lemmas table_defs = difficulty_levels_def ball_speeds_def ai_base_speed_def ai_base_prediction_def
  base_speed_def difficulty_speed_multipliers_def difficulty_multipliers_def

lemmas reset_defs = reset_ball_def reset_game_def update_difficulty_settings_def
  cycle_difficulty_def unset_fields_def init_def

lemmas ball_defs = move_ball_def wall_collision_def hit_pos_def angle_modifier_def left_hit_def
  right_hit_def left_paddle_collision_def right_paddle_collision_def paddle_collision_def
  scoring_def ball_gate_open_def update_ball_def

lemma scenario_fields:
  "height scenario = 24" "width scenario = 80" "paddle_height scenario = 5"
  "paddle_width scenario = 1" "p1_x scenario = 2" "p2_x scenario = 77"
  "p1_y scenario = 10" "p2_y scenario = 10" "current_difficulty scenario = 1"
  "target_score scenario = 10" "p1_score scenario = 0" "p2_score scenario = 0"
  "game_over scenario = False" "paused scenario = False" "single_player scenario = True"
  "winner scenario = None"
  by (simp_all add: scenario_def reset_defs table_defs Let_def)

subsection \<open>Wall collision\<close>

text \<open>C2: when the integrated \<open>y\<close> is at most 1 or at least \<open>height - 2\<close>, the wall block
  negates \<open>dy\<close> once and puts \<open>y\<close> into \<open>[2, height - 3]\<close>; when \<open>y\<close> is strictly between 1 and
  \<open>height - 2\<close> the block changes neither \<open>dy\<close> nor \<open>y\<close>. The block is \<open>wall_collision\<close>, which
  \<open>update_ball\<close> applies to the integrated ball; the field has at least 5 rows (\<open>main\<close>
  refuses fewer than 20).\<close>

theorem wall_collision_reflects:
  assumes "5 \<le> height s"
  shows "(ball_y s \<le> 1 \<or> of_int (height s - 2) \<le> ball_y s \<longrightarrow>
            ball_dy (wall_collision s) = - ball_dy s \<and>
            2 \<le> ball_y (wall_collision s) \<and>
            ball_y (wall_collision s) \<le> of_int (height s - 3)) \<and>
         (1 < ball_y s \<and> ball_y s < of_int (height s - 2) \<longrightarrow>
            ball_dy (wall_collision s) = ball_dy s \<and>
            ball_y (wall_collision s) = ball_y s)"
  using assms by (auto simp: wall_collision_def)

theorem wall_collision_reflects_witness:
  "5 \<le> height (move_ball (scenario\<lparr>ball_y := 1 / 2, ball_dy := - 1\<rparr>)) \<and>
   ball_y (move_ball (scenario\<lparr>ball_y := 1 / 2, ball_dy := - 1\<rparr>)) \<le> 1 \<and>
   ball_dy (wall_collision (move_ball (scenario\<lparr>ball_y := 1 / 2, ball_dy := - 1\<rparr>))) = 1 \<and>
   ball_y (wall_collision (move_ball (scenario\<lparr>ball_y := 1 / 2, ball_dy := - 1\<rparr>))) = 2 \<and>
   ball_dy (wall_collision (move_ball (scenario\<lparr>ball_y := 10, ball_dy := - 1\<rparr>))) = - 1 \<and>
   ball_y (wall_collision (move_ball (scenario\<lparr>ball_y := 10, ball_dy := - 1\<rparr>))) = 9"
proof -
  have h1: "5 \<le> height (move_ball (scenario\<lparr>ball_y := 1 / 2, ball_dy := - 1\<rparr>))"
    and h2: "5 \<le> height (move_ball (scenario\<lparr>ball_y := 10, ball_dy := - 1\<rparr>))"
    by (simp_all add: move_ball_def scenario_fields)
  show ?thesis
    using wall_collision_reflects [OF h1] wall_collision_reflects [OF h2]
    by (simp add: move_ball_def wall_collision_def scenario_fields)
qed

subsection \<open>Paddle collision\<close>


subsection \<open>Scoring\<close>

lemma paddle_collision_keeps:
  "ball_x (paddle_collision s) = ball_x s"
  "ball_y (paddle_collision s) = ball_y s"
  "p1_score (paddle_collision s) = p1_score s"
  "p2_score (paddle_collision s) = p2_score s"
  "target_score (paddle_collision s) = target_score s"
  "width (paddle_collision s) = width s"
  "height (paddle_collision s) = height s"
  "game_over (paddle_collision s) = game_over s"
  "winner (paddle_collision s) = winner s"
  by (simp_all add: paddle_collision_def left_paddle_collision_def right_paddle_collision_def)

lemma wall_collision_keeps:
  "ball_x (wall_collision s) = ball_x s"
  "p1_score (wall_collision s) = p1_score s"
  "p2_score (wall_collision s) = p2_score s"
  "target_score (wall_collision s) = target_score s"
  "width (wall_collision s) = width s"
  "height (wall_collision s) = height s"
  "game_over (wall_collision s) = game_over s"
  "winner (wall_collision s) = winner s"
  by (simp_all add: wall_collision_def)

lemma scoring_fields:
  "p1_score (scoring a c t s) =
     (if ball_x s < 0 then p1_score s
      else if of_int (width s) < ball_x s then p1_score s + 1 else p1_score s)"
  "p2_score (scoring a c t s) = (if ball_x s < 0 then p2_score s + 1 else p2_score s)"
  "game_over (scoring a c t s) =
     (if ball_x s < 0 then (target_score s \<le> p2_score s + 1 \<or> game_over s)
      else if of_int (width s) < ball_x s then (target_score s \<le> p1_score s + 1 \<or> game_over s)
      else game_over s)"
  "winner (scoring a c t s) =
     (if ball_x s < 0 then (if target_score s \<le> p2_score s + 1 then Some ''Player 2'' else winner s)
      else if of_int (width s) < ball_x s
        then (if target_score s \<le> p1_score s + 1 then Some ''Player 1'' else winner s)
      else winner s)"
  by (simp_all add: scoring_def reset_ball_def Let_def)

lemma scoring_resets_ball:
  "ball_x s < 0 \<and> \<not> target_score s \<le> p2_score s + 1 \<or>
   \<not> ball_x s < 0 \<and> of_int (width s) < ball_x s \<and> \<not> target_score s \<le> p1_score s + 1 \<Longrightarrow>
   ball_x (scoring a c t s) = of_int (width s div 2) \<and>
   ball_y (scoring a c t s) = of_int (height s div 2)"
  by (auto simp: scoring_def reset_ball_def Let_def)

lemma update_ball_open:
  "ball_gate_open s now \<Longrightarrow>
   update_ball now a c s =
     scoring a c now (paddle_collision (wall_collision (move_ball (s\<lparr>last_ball_move := now\<rparr>))))"
  by (simp add: update_ball_def)

text \<open>C4: in a ball update that passes the time gate, an integrated \<open>x\<close> below 0 adds
  exactly 1 to the right player's score; if that score reaches \<open>target_score\<close> the game is
  over with Player 2 as winner, otherwise the ball is back at the centre of the field.
  Symmetrically an integrated \<open>x\<close> above \<open>width\<close> adds 1 to the left player's score. With
  \<open>0 \<le> x \<le> width\<close> no score changes.\<close>

theorem scoring_rule:
  assumes gate: "ball_gate_open s now" and w: "0 \<le> width s"
  shows "(ball_x s + ball_dx s < 0 \<longrightarrow>
            p2_score (update_ball now angle0 coin s) = p2_score s + 1 \<and>
            p1_score (update_ball now angle0 coin s) = p1_score s \<and>
            (if target_score s \<le> p2_score s + 1
             then game_over (update_ball now angle0 coin s) \<and>
                  winner (update_ball now angle0 coin s) = Some ''Player 2''
             else ball_x (update_ball now angle0 coin s) = of_int (width s div 2) \<and>
                  ball_y (update_ball now angle0 coin s) = of_int (height s div 2) \<and>
                  game_over (update_ball now angle0 coin s) = game_over s \<and>
                  winner (update_ball now angle0 coin s) = winner s)) \<and>
         (of_int (width s) < ball_x s + ball_dx s \<longrightarrow>
            p1_score (update_ball now angle0 coin s) = p1_score s + 1 \<and>
            p2_score (update_ball now angle0 coin s) = p2_score s \<and>
            (if target_score s \<le> p1_score s + 1
             then game_over (update_ball now angle0 coin s) \<and>
                  winner (update_ball now angle0 coin s) = Some ''Player 1''
             else ball_x (update_ball now angle0 coin s) = of_int (width s div 2) \<and>
                  ball_y (update_ball now angle0 coin s) = of_int (height s div 2) \<and>
                  game_over (update_ball now angle0 coin s) = game_over s \<and>
                  winner (update_ball now angle0 coin s) = winner s)) \<and>
         (0 \<le> ball_x s + ball_dx s \<and> ball_x s + ball_dx s \<le> of_int (width s) \<longrightarrow>
            p1_score (update_ball now angle0 coin s) = p1_score s \<and>
            p2_score (update_ball now angle0 coin s) = p2_score s \<and>
            game_over (update_ball now angle0 coin s) = game_over s \<and>
            winner (update_ball now angle0 coin s) = winner s)"
proof -
  let ?t = "paddle_collision (wall_collision (move_ball (s\<lparr>last_ball_move := now\<rparr>)))"
  have u: "update_ball now angle0 coin s = scoring angle0 coin now ?t"
    using gate by (rule update_ball_open)
  have x: "ball_x ?t = ball_x s + ball_dx s"
    by (simp add: paddle_collision_keeps wall_collision_keeps move_ball_def)
  have k: "p1_score ?t = p1_score s" "p2_score ?t = p2_score s"
    "target_score ?t = target_score s" "width ?t = width s" "height ?t = height s"
    "game_over ?t = game_over s" "winner ?t = winner s"
    by (simp_all add: paddle_collision_keeps wall_collision_keeps move_ball_def)
  have left: ?thesis if "ball_x s + ball_dx s < 0"
  proof -
    from that w have nw: "\<not> of_int (width s) < ball_x s + ball_dx s" by simp
    show ?thesis
    proof (cases "target_score s \<le> p2_score s + 1")
      case True
      with that nw show ?thesis
        unfolding u by (simp add: scoring_fields x k)
    next
      case False
      with that have "ball_x (scoring angle0 coin now ?t) = of_int (width ?t div 2) \<and>
          ball_y (scoring angle0 coin now ?t) = of_int (height ?t div 2)"
        by (intro scoring_resets_ball) (simp add: x k)
      with that nw False show ?thesis
        unfolding u by (simp add: scoring_fields x k)
    qed
  qed
  have right: ?thesis if "of_int (width s) < ball_x s + ball_dx s"
  proof -
    from that w have nl: "\<not> ball_x s + ball_dx s < 0" by simp
    show ?thesis
    proof (cases "target_score s \<le> p1_score s + 1")
      case True
      with that nl show ?thesis
        unfolding u by (simp add: scoring_fields x k)
    next
      case False
      with that nl have "ball_x (scoring angle0 coin now ?t) = of_int (width ?t div 2) \<and>
          ball_y (scoring angle0 coin now ?t) = of_int (height ?t div 2)"
        by (intro scoring_resets_ball) (simp add: x k)
      with that nl False show ?thesis
        unfolding u by (simp add: scoring_fields x k)
    qed
  qed
  have mid: ?thesis
    if "\<not> ball_x s + ball_dx s < 0" "\<not> of_int (width s) < ball_x s + ball_dx s"
    using that unfolding u by (simp add: scoring_fields x k)
  from left right mid show ?thesis by blast
qed

theorem scoring_rule_witness:
  "ball_gate_open left_exit 1 \<and> 0 \<le> width left_exit \<and>
   ball_x left_exit + ball_dx left_exit < 0 \<and>
   p2_score (update_ball 1 0 False left_exit) = 1 \<and>
   p1_score (update_ball 1 0 False left_exit) = 0 \<and>
   ball_x (update_ball 1 0 False left_exit) = 40 \<and>
   ball_y (update_ball 1 0 False left_exit) = 12 \<and>
   \<not> game_over (update_ball 1 0 False left_exit) \<and>
   ball_gate_open right_exit_match_point 1 \<and>
   of_int (width right_exit_match_point)
     < ball_x right_exit_match_point + ball_dx right_exit_match_point \<and>
   p1_score (update_ball 1 0 False right_exit_match_point) = 10 \<and>
   game_over (update_ball 1 0 False right_exit_match_point) \<and>
   winner (update_ball 1 0 False right_exit_match_point) = Some ''Player 1''"
proof -
  have f: "ball_speed scenario = 2 / 100" "last_ball_move scenario = 0"
    by (simp_all add: scenario_def reset_defs table_defs Let_def)
  have g1: "ball_gate_open left_exit 1" and w1: "0 \<le> width left_exit"
    by (simp_all add: ball_gate_open_def left_exit_def scenario_fields f)
  have g2: "ball_gate_open right_exit_match_point 1" and w2: "0 \<le> width right_exit_match_point"
    by (simp_all add: ball_gate_open_def right_exit_match_point_def scenario_fields f)
  show ?thesis
    using scoring_rule [OF g1 w1, of 0 False] scoring_rule [OF g2 w2, of 0 False] g1 g2
    by (simp add: left_exit_def right_exit_match_point_def scenario_fields)
qed

subsection \<open>Ball reset\<close>

lemma abs_sin_le_cos:
  assumes lo: "- (pi / 4) \<le> a" and hi: "a \<le> pi / 4"
  shows "\<bar>sin a\<bar> \<le> cos a"
proof -
  have c: "cos (pi / 4) \<le> cos \<bar>a\<bar>"
    using lo hi by (intro cos_monotone_0_pi_le) (auto simp: abs_le_iff)
  have s1: "sin a \<le> sin (pi / 4)"
    using lo hi by (intro sin_monotone_2pi_le) auto
  have s2: "sin (- (pi / 4)) \<le> sin a"
    using lo hi by (intro sin_monotone_2pi_le) auto
  from s1 s2 have "\<bar>sin a\<bar> \<le> sin (pi / 4)" by (simp add: abs_le_iff)
  also have "\<dots> = cos (pi / 4)" by (simp add: sin_45 cos_45)
  also have "\<dots> \<le> cos a" using c by simp
  finally show ?thesis .
qed

lemma polar_norm: "0 \<le> r \<Longrightarrow> sqrt ((r * cos a)\<^sup>2 + (r * sin a)\<^sup>2) = r"
proof -
  assume r: "0 \<le> r"
  have "(r * cos a)\<^sup>2 + (r * sin a)\<^sup>2 = r\<^sup>2 * ((cos a)\<^sup>2 + (sin a)\<^sup>2)"
    by (simp only: power_mult_distrib distrib_left)
  also have "\<dots> = r\<^sup>2" by simp
  finally show ?thesis using r by simp
qed

lemma speed_nonneg: "d < 3 \<Longrightarrow> 0 \<le> base_speed * (difficulty_speed_multipliers ! d)"
proof -
  assume "d < 3"
  then have "d = 0 \<or> d = 1 \<or> d = 2" by arith
  then show ?thesis
    by (auto simp: base_speed_def difficulty_speed_multipliers_def)
qed

text \<open>The serve in exact arithmetic. With the cosine and sine taken as the real functions, for
  each of the three difficulties, every angle drawn from \<open>[-pi/4, pi/4]\<close> and either outcome
  of the coin, \<open>reset_ball\<close> puts the ball at the centre of the field with a velocity of
  magnitude \<open>base_speed\<close> times the difficulty's multiplier, at most 45 degrees off the
  horizontal (\<open>|dy| \<le> |dx|\<close>). This is a statement about the idealised arithmetic only: the
  program computes \<open>math.cos\<close> and \<open>math.sin\<close> of a double angle in doubles, where the
  magnitude is \<open>base_speed\<close> times the multiplier up to rounding and the comparison of
  \<open>|dy|\<close> with \<open>|dx|\<close> can go either way at the ends of the interval; nothing is stated here
  about those floating-point values.\<close>

lemma reset_ball_exact:
  assumes d: "current_difficulty s < 3"
    and lo: "- (pi / 4) \<le> angle0" and hi: "angle0 \<le> pi / 4"
  shows "ball_x (reset_ball angle0 coin now s) = of_int (width s div 2) \<and>
         ball_y (reset_ball angle0 coin now s) = of_int (height s div 2) \<and>
         sqrt ((ball_dx (reset_ball angle0 coin now s))\<^sup>2 + (ball_dy (reset_ball angle0 coin now s))\<^sup>2)
           = base_speed * (difficulty_speed_multipliers ! current_difficulty s) \<and>
         \<bar>ball_dy (reset_ball angle0 coin now s)\<bar> \<le> \<bar>ball_dx (reset_ball angle0 coin now s)\<bar>"
proof -
  let ?r = "base_speed * (difficulty_speed_multipliers ! current_difficulty s)"
  let ?a = "if coin then angle0 + pi else angle0"
  have r: "0 \<le> ?r" using d by (rule speed_nonneg)
  have dx: "ball_dx (reset_ball angle0 coin now s) = ?r * cos ?a"
    and dy: "ball_dy (reset_ball angle0 coin now s) = ?r * sin ?a"
    by (simp_all add: reset_ball_def Let_def)
  have sc: "\<bar>sin ?a\<bar> \<le> \<bar>cos ?a\<bar>"
    using abs_sin_le_cos [OF lo hi] by simp
  have "\<bar>?r * sin ?a\<bar> \<le> \<bar>?r * cos ?a\<bar>"
    unfolding abs_mult using sc r by (intro mult_left_mono) auto
  moreover have "sqrt ((?r * cos ?a)\<^sup>2 + (?r * sin ?a)\<^sup>2) = ?r"
    using r by (rule polar_norm)
  ultimately show ?thesis
    unfolding dx dy by (simp add: reset_ball_def Let_def)
qed

lemma reset_ball_exact_example:
  "current_difficulty scenario < 3 \<and> - (pi / 4) \<le> 0 \<and> (0::real) \<le> pi / 4 \<and>
   ball_x (reset_ball 0 True 0 scenario) = 40 \<and>
   ball_y (reset_ball 0 True 0 scenario) = 12 \<and>
   ball_dx (reset_ball 0 True 0 scenario) = - 2 \<and>
   sqrt ((ball_dx (reset_ball 0 True 0 scenario))\<^sup>2 + (ball_dy (reset_ball 0 True 0 scenario))\<^sup>2) = 2"
proof -
  have d: "current_difficulty scenario < 3"
    by (simp add: scenario_def reset_defs table_defs Let_def)
  have lo: "- (pi / 4) \<le> 0" and hi: "(0::real) \<le> pi / 4" by simp_all
  have w: "width scenario = 80" and h: "height scenario = 24"
    and cd: "current_difficulty scenario = 1"
    by (simp_all add: scenario_def reset_defs table_defs Let_def)
  have dx: "ball_dx (reset_ball 0 True 0 scenario) = - 2"
    by (simp add: reset_ball_def Let_def cd table_defs)
  show ?thesis
    using reset_ball_exact [OF d lo hi, of True 0] d dx
    by (simp add: w h cd table_defs)
qed

subsection \<open>Invariant of the reachable states\<close>

lemmas input_defs = KEY_DOWN_def KEY_UP_def ord_of_def key_name_of_def counterpart_def
  track_key_def handle_key_def key_timeout_def expired_def release_keys_def
  update_movement_state_def handle_input_def

lemma start_in_field:
  assumes "20 \<le> (h::int)"
  shows "3 \<le> h div 2 \<and> 4 + real_of_int (h div 2) \<le> real_of_int h"
proof -
  have a: "3 \<le> h div 2" and b: "4 + h div 2 \<le> h"
    using assms by linarith+
  have "real_of_int (4 + h div 2) \<le> real_of_int h"
    using b by (simp only: of_int_le_iff)
  with a show ?thesis by simp
qed

lemma reset_game_inv:
  assumes "20 \<le> height s" "60 \<le> width s" "target_score s = 10" "current_difficulty s < 3"
  shows "game_inv (reset_game a c t s)"
  using assms start_in_field [of "height s"]
  by (simp add: game_inv_def reset_game_def reset_ball_def in_field_def Let_def)

lemma update_difficulty_settings_inv:
  "game_inv s \<Longrightarrow> game_inv (update_difficulty_settings s)"
  unfolding game_inv_def update_difficulty_settings_def in_field_def Let_def by clarsimp

lemma init_inv: "20 \<le> h \<Longrightarrow> 60 \<le> w \<Longrightarrow> game_inv (init h w a c t)"
proof -
  assume h: "20 \<le> h" and w: "60 \<le> w"
  have "game_inv (reset_game a c t (unset_fields h w))"
    using h w by (intro reset_game_inv) (simp_all add: unset_fields_def)
  then have "game_inv (update_difficulty_settings (reset_game a c t (unset_fields h w)))"
    by (rule update_difficulty_settings_inv)
  then show ?thesis
    unfolding init_def game_inv_def in_field_def by clarsimp
qed

lemma cycle_difficulty_inv: "game_inv s \<Longrightarrow> game_inv (cycle_difficulty a c t s)"
proof -
  assume i: "game_inv s"
  let ?s3 = "(update_difficulty_settings
      (s\<lparr>current_difficulty := (current_difficulty s + 1) mod length difficulty_levels\<rparr>))
      \<lparr>show_difficulty_change := True, difficulty_change_time := t\<rparr>"
  have d: "(current_difficulty s + 1) mod length difficulty_levels < 3"
    by (simp add: difficulty_levels_def)
  have i3: "game_inv ?s3"
    using i d unfolding game_inv_def update_difficulty_settings_def in_field_def Let_def by clarsimp
  have "game_inv (reset_game a c t ?s3)"
    using i3 by (intro reset_game_inv) (simp_all add: game_inv_def)
  with i3 show ?thesis
    by (simp add: cycle_difficulty_def Let_def)
qed

lemma track_key_inv: "game_inv s \<Longrightarrow> game_inv (track_key t key s)"
  unfolding game_inv_def track_key_def in_field_def by (clarsimp split: option.split)

lemma handle_key_inv: "game_inv s \<Longrightarrow> game_inv (handle_key t ev s)"
proof -
  assume i: "game_inv s"
  obtain key a c where ev: "ev = (key, a, c)" by (cases ev) auto
  let ?s1 = "s\<lparr>single_player := \<not> single_player s, show_mode_change := True,
               mode_change_time := t\<rparr>"
  have i1: "game_inv ?s1" using i unfolding game_inv_def in_field_def by clarsimp
  have r1: "game_inv (reset_game a c t ?s1)"
    using i1 by (intro reset_game_inv) (simp_all add: game_inv_def)
  have r: "game_inv (reset_game a c t s)"
    using i by (intro reset_game_inv) (simp_all add: game_inv_def)
  have p: "game_inv (s\<lparr>paused := \<not> paused s\<rparr>)"
    using i unfolding game_inv_def in_field_def by clarsimp
  show ?thesis
    unfolding ev handle_key_def
    using i i1 r1 r p cycle_difficulty_inv [OF i] track_key_inv [OF i]
    by (simp add: Let_def)
qed

lemma process_keys_inv: "game_inv s \<Longrightarrow> game_inv (snd (process_keys t evs s))"
  by (induction evs arbitrary: s) (simp_all add: handle_key_inv)

lemma release_keys_inv: "game_inv s \<Longrightarrow> game_inv (release_keys t s)"
  unfolding game_inv_def release_keys_def in_field_def by clarsimp

lemma update_movement_state_inv: "game_inv s \<Longrightarrow> game_inv (update_movement_state s)"
  unfolding game_inv_def update_movement_state_def in_field_def Let_def by clarsimp

lemma handle_input_inv: "game_inv s \<Longrightarrow> game_inv (snd (handle_input t evs s))"
proof -
  assume i: "game_inv s"
  obtain b s' where p: "process_keys t evs s = (b, s')" by (cases "process_keys t evs s")
  have "game_inv s'" using process_keys_inv [OF i, of t evs] p by simp
  then show ?thesis
    by (cases b) (simp_all add: handle_input_def p update_movement_state_inv release_keys_inv)
qed

lemma game_inv_frame:
  assumes "game_inv s"
    and "height s' = height s" "width s' = width s" "target_score s' = target_score s"
    and "paddle_height s' = paddle_height s" "paddle_width s' = paddle_width s"
    and "p1_x s' = p1_x s" "p2_x s' = p2_x s"
    and "paddle_speed s' = paddle_speed s" "paddle_acceleration s' = paddle_acceleration s"
    and "current_difficulty s' = current_difficulty s"
    and "p1_y s' = p1_y s" "p2_y s' = p2_y s"
    and "p1_score s' = p1_score s" "p2_score s' = p2_score s"
    and "game_over s' = game_over s" "winner s' = winner s"
  shows "game_inv s'"
  using assms unfolding game_inv_def in_field_def by clarsimp

lemma left_paddle_collision_keeps:
  "height (left_paddle_collision s) = height s" "width (left_paddle_collision s) = width s"
  "target_score (left_paddle_collision s) = target_score s"
  "paddle_height (left_paddle_collision s) = paddle_height s"
  "paddle_width (left_paddle_collision s) = paddle_width s"
  "p1_x (left_paddle_collision s) = p1_x s" "p2_x (left_paddle_collision s) = p2_x s"
  "paddle_speed (left_paddle_collision s) = paddle_speed s"
  "paddle_acceleration (left_paddle_collision s) = paddle_acceleration s"
  "current_difficulty (left_paddle_collision s) = current_difficulty s"
  "p1_y (left_paddle_collision s) = p1_y s" "p2_y (left_paddle_collision s) = p2_y s"
  "p1_score (left_paddle_collision s) = p1_score s"
  "p2_score (left_paddle_collision s) = p2_score s"
  "game_over (left_paddle_collision s) = game_over s"
  "winner (left_paddle_collision s) = winner s"
  by (simp_all add: left_paddle_collision_def)

lemma right_paddle_collision_keeps:
  "height (right_paddle_collision s) = height s" "width (right_paddle_collision s) = width s"
  "target_score (right_paddle_collision s) = target_score s"
  "paddle_height (right_paddle_collision s) = paddle_height s"
  "paddle_width (right_paddle_collision s) = paddle_width s"
  "p1_x (right_paddle_collision s) = p1_x s" "p2_x (right_paddle_collision s) = p2_x s"
  "paddle_speed (right_paddle_collision s) = paddle_speed s"
  "paddle_acceleration (right_paddle_collision s) = paddle_acceleration s"
  "current_difficulty (right_paddle_collision s) = current_difficulty s"
  "p1_y (right_paddle_collision s) = p1_y s" "p2_y (right_paddle_collision s) = p2_y s"
  "p1_score (right_paddle_collision s) = p1_score s"
  "p2_score (right_paddle_collision s) = p2_score s"
  "game_over (right_paddle_collision s) = game_over s"
  "winner (right_paddle_collision s) = winner s"
  by (simp_all add: right_paddle_collision_def)

lemma pre_scoring_inv:
  assumes "game_inv s"
  shows "game_inv (paddle_collision (wall_collision (move_ball (s\<lparr>last_ball_move := now\<rparr>))))"
  using assms
  by (rule game_inv_frame)
     (simp_all add: paddle_collision_def left_paddle_collision_keeps
        right_paddle_collision_keeps wall_collision_def move_ball_def)

lemma scoring_inv:
  assumes "game_inv s" and "\<not> game_over s"
  shows "game_inv (scoring a c t s)"
  using assms unfolding game_inv_def in_field_def scoring_def reset_ball_def Let_def
  by clarsimp

lemma update_ball_inv:
  assumes i: "game_inv s" and g: "\<not> game_over s"
  shows "game_inv (update_ball now a c s)"
proof (cases "ball_gate_open s now")
  case True
  let ?t = "paddle_collision (wall_collision (move_ball (s\<lparr>last_ball_move := now\<rparr>)))"
  have "game_inv ?t" using i by (rule pre_scoring_inv)
  moreover have "\<not> game_over ?t"
    using g by (simp add: paddle_collision_keeps wall_collision_keeps move_ball_def)
  ultimately have "game_inv (scoring a c now ?t)" by (rule scoring_inv)
  then show ?thesis using True by (simp add: update_ball_open)
next
  case False
  then show ?thesis using i by (simp add: update_ball_def)
qed

lemma update_ai_paddle_inv: "game_inv s \<Longrightarrow> game_inv (update_ai_paddle now roll noise s)"
  unfolding game_inv_def in_field_def update_ai_paddle_def Let_def by clarsimp

lemma update_p1_inv: "game_inv s \<Longrightarrow> game_inv (update_p1 dt s)"
  unfolding game_inv_def in_field_def update_p1_def by clarsimp

lemma update_p2_inv: "game_inv s \<Longrightarrow> game_inv (update_p2 dt s)"
  unfolding game_inv_def in_field_def update_p2_def by clarsimp

lemma update_paddle_movement_inv: "game_inv s \<Longrightarrow> game_inv (update_paddle_movement now s)"
proof -
  assume i: "game_inv s"
  have "game_inv (s\<lparr>last_paddle_update := now\<rparr>)"
    using i by (rule game_inv_frame) simp_all
  then have 1: "game_inv (update_p1 (capped_dt s now) (s\<lparr>last_paddle_update := now\<rparr>))"
    by (rule update_p1_inv)
  then show ?thesis
    by (simp add: update_paddle_movement_def Let_def update_p2_inv)
qed

lemma draw_inv: "game_inv s \<Longrightarrow> game_inv (draw now s)"
  by (erule game_inv_frame) (simp_all add: draw_def Let_def)

lemma reachable_inv: "reachable s \<Longrightarrow> game_inv s"
proof (induction rule: reachable.induct)
  case (r_init h w angle0 coin now)
  then show ?case by (rule init_inv)
next
  case (r_input s now evs)
  then show ?case by (simp add: handle_input_inv)
next
  case (r_ball s now angle0 coin)
  then show ?case by (simp add: update_ball_inv)
next
  case (r_ai s now roll noise)
  then show ?case by (simp add: update_ai_paddle_inv)
next
  case (r_paddle s now)
  then show ?case by (simp add: update_paddle_movement_inv)
next
  case (r_draw s now)
  then show ?case by (simp add: draw_inv)
qed

lemma update_ball_flags:
  "paused (update_ball now a c s) = paused s"
proof -
  have 1: "paused (scoring a c t u) = paused u" for t u
    by (simp add: scoring_def reset_ball_def Let_def)
  have 2: "paused (paddle_collision u) = paused u" for u
    by (simp add: paddle_collision_def left_paddle_collision_def right_paddle_collision_def)
  have 3: "paused (wall_collision u) = paused u" for u
    by (simp add: wall_collision_def)
  show ?thesis
    by (simp add: update_ball_def 1 2 3 move_ball_def)
qed

lemma update_ai_paddle_flags:
  "paused (update_ai_paddle now r n s) = paused s"
  "game_over (update_ai_paddle now r n s) = game_over s"
  by (simp_all add: update_ai_paddle_def Let_def)

lemma tick_reachable:
  assumes r: "reachable s"
  shows "reachable (snd (tick e s))"
proof -
  obtain b s1 where h: "handle_input (t_input e) (keys e) s = (b, s1)"
    by (cases "handle_input (t_input e) (keys e) s")
  have r1: "reachable s1"
    using r_input [OF r, of "t_input e" "keys e"] h by simp
  show ?thesis
  proof (cases b)
    case False
    then show ?thesis using r1 by (simp add: tick_def h)
  next
    case True
    define sb where "sb = update_ball (t_ball e) (ball_angle e) (ball_coin e) s1"
    define s2 where "s2 = (if \<not> game_over s1 \<and> \<not> paused s1
               then update_ai_paddle (t_ai e) (ai_roll e) (ai_noise e) sb else s1)"
    define s3 where "s3 = (if \<not> game_over s2 \<and> \<not> paused s2
               then update_paddle_movement (t_paddle e) s2 else s2)"
    have r2: "reachable s2"
    proof (cases "\<not> game_over s1 \<and> \<not> paused s1")
      case live: True
      have rb: "reachable sb" unfolding sb_def using r1 live by (intro r_ball) simp_all
      have pb: "\<not> paused sb" unfolding sb_def using live by (simp add: update_ball_flags)
      show ?thesis
      proof (cases "game_over sb")
        case go: True
        then have "update_ai_paddle (t_ai e) (ai_roll e) (ai_noise e) sb = sb"
          by (simp add: update_ai_paddle_def)
        with rb live show ?thesis by (simp add: s2_def)
      next
        case False
        then have "reachable (update_ai_paddle (t_ai e) (ai_roll e) (ai_noise e) sb)"
          using rb pb by (intro r_ai)
        with live show ?thesis by (simp add: s2_def)
      qed
    next
      case False
      then have "s2 = s1" by (auto simp: s2_def)
      with r1 show ?thesis by simp
    qed
    have r3: "reachable s3"
    proof (cases "\<not> game_over s2 \<and> \<not> paused s2")
      case live: True
      then have "reachable (update_paddle_movement (t_paddle e) s2)"
        using r2 by (intro r_paddle) simp_all
      moreover from live have "s3 = update_paddle_movement (t_paddle e) s2"
        by (simp add: s3_def)
      ultimately show ?thesis by simp
    next
      case False
      then have "s3 = s2" by (auto simp: s3_def)
      with r2 show ?thesis by simp
    qed
    have "tick e s = (True, draw (t_draw e) s3)"
      unfolding tick_def h s3_def s2_def sb_def using True by (simp only: Let_def split: prod.split bool.split) simp
    then show ?thesis using r_draw [OF r3] by simp
  qed
qed

subsection \<open>Paddle bounds\<close>

lemmas paddle_defs = accelerate_def target_velocity_def in_field_def capped_dt_def
  new_p1_velocity_def new_p2_velocity_def new_p1_y_def new_p2_y_def update_p1_def update_p2_def
  update_paddle_movement_def

lemma stamp_frame:
  "in_field (s\<lparr>last_paddle_update := t\<rparr>) y = in_field s y"
  "new_p1_y (s\<lparr>last_paddle_update := t\<rparr>) dt = new_p1_y s dt"
  "new_p1_velocity (s\<lparr>last_paddle_update := t\<rparr>) dt = new_p1_velocity s dt"
  "new_p2_y (s\<lparr>last_paddle_update := t\<rparr>) dt = new_p2_y s dt"
  "new_p2_velocity (s\<lparr>last_paddle_update := t\<rparr>) dt = new_p2_velocity s dt"
  by (simp_all add: in_field_def new_p1_y_def new_p1_velocity_def new_p2_y_def
      new_p2_velocity_def)

lemma update_p1_fields:
  "p1_y (update_p1 dt s) = (if in_field s (new_p1_y s dt) then new_p1_y s dt else p1_y s)"
  "p1_velocity (update_p1 dt s) = (if in_field s (new_p1_y s dt) then new_p1_velocity s dt else 0)"
  "p2_y (update_p1 dt s) = p2_y s"
  "p2_velocity (update_p1 dt s) = p2_velocity s"
  "single_player (update_p1 dt s) = single_player s"
  "in_field (update_p1 dt s) y = in_field s y"
  "new_p2_y (update_p1 dt s) dt' = new_p2_y s dt'"
  "new_p2_velocity (update_p1 dt s) dt' = new_p2_velocity s dt'"
  by (simp_all add: update_p1_def in_field_def new_p2_y_def new_p2_velocity_def)

lemma update_p2_fields:
  "p2_y (update_p2 dt s) = (if in_field s (new_p2_y s dt) then new_p2_y s dt else p2_y s)"
  "p2_velocity (update_p2 dt s) = (if in_field s (new_p2_y s dt) then new_p2_velocity s dt else 0)"
  "p1_y (update_p2 dt s) = p1_y s"
  "p1_velocity (update_p2 dt s) = p1_velocity s"
  by (simp_all add: update_p2_def)

lemma update_paddle_movement_p1:
  "p1_y (update_paddle_movement now s) =
     (if in_field s (new_p1_y s (capped_dt s now)) then new_p1_y s (capped_dt s now) else p1_y s)"
  "p1_velocity (update_paddle_movement now s) =
     (if in_field s (new_p1_y s (capped_dt s now)) then new_p1_velocity s (capped_dt s now) else 0)"
  by (simp_all add: update_paddle_movement_def Let_def update_p1_fields update_p2_fields
      stamp_frame)

lemma update_paddle_movement_p2:
  "p2_y (update_paddle_movement now s) =
     (if \<not> single_player s \<and> in_field s (new_p2_y s (capped_dt s now))
      then new_p2_y s (capped_dt s now) else p2_y s)"
  "p2_velocity (update_paddle_movement now s) =
     (if single_player s then p2_velocity s
      else if in_field s (new_p2_y s (capped_dt s now)) then new_p2_velocity s (capped_dt s now)
      else 0)"
  by (simp_all add: update_paddle_movement_def Let_def update_p1_fields update_p2_fields
      stamp_frame)

lemma update_paddle_movement_keeps:
  "last_paddle_update (update_paddle_movement now s) = now"
  "height (update_paddle_movement now s) = height s"
  "paddle_height (update_paddle_movement now s) = paddle_height s"
  "paddle_speed (update_paddle_movement now s) = paddle_speed s"
  "paddle_acceleration (update_paddle_movement now s) = paddle_acceleration s"
  "p1_moving_up (update_paddle_movement now s) = p1_moving_up s"
  "p1_moving_down (update_paddle_movement now s) = p1_moving_down s"
  "p2_moving_up (update_paddle_movement now s) = p2_moving_up s"
  "p2_moving_down (update_paddle_movement now s) = p2_moving_down s"
  "single_player (update_paddle_movement now s) = single_player s"
  "game_over (update_paddle_movement now s) = game_over s"
  "paused (update_paddle_movement now s) = paused s"
  by (simp_all add: update_paddle_movement_def update_p1_def update_p2_def Let_def)

text \<open>C1: in every reachable state, after \<open>update_paddle_movement\<close> both paddle positions are
  in \<open>[1, height - paddle_height - 1]\<close>; when the proposed position of a paddle the method
  moves (player 1 always, player 2 in two-player mode) is outside that interval, the
  position stays as it was and the velocity of that paddle is 0.\<close>

theorem paddle_positions_bounded:
  assumes r: "reachable s"
  shows "1 \<le> p1_y (update_paddle_movement now s) \<and>
         p1_y (update_paddle_movement now s) \<le> of_int (height s - paddle_height s - 1) \<and>
         1 \<le> p2_y (update_paddle_movement now s) \<and>
         p2_y (update_paddle_movement now s) \<le> of_int (height s - paddle_height s - 1) \<and>
         (\<not> in_field s (new_p1_y s (capped_dt s now)) \<longrightarrow>
            p1_y (update_paddle_movement now s) = p1_y s \<and>
            p1_velocity (update_paddle_movement now s) = 0) \<and>
         (\<not> single_player s \<and> \<not> in_field s (new_p2_y s (capped_dt s now)) \<longrightarrow>
            p2_y (update_paddle_movement now s) = p2_y s \<and>
            p2_velocity (update_paddle_movement now s) = 0)"
proof -
  have "game_inv s" using r by (rule reachable_inv)
  then have "game_inv (update_paddle_movement now s)"
    by (rule update_paddle_movement_inv)
  then have "in_field (update_paddle_movement now s) (p1_y (update_paddle_movement now s))"
    and "in_field (update_paddle_movement now s) (p2_y (update_paddle_movement now s))"
    by (simp_all add: game_inv_def)
  then have "1 \<le> p1_y (update_paddle_movement now s) \<and>
         p1_y (update_paddle_movement now s) \<le> of_int (height s - paddle_height s - 1) \<and>
         1 \<le> p2_y (update_paddle_movement now s) \<and>
         p2_y (update_paddle_movement now s) \<le> of_int (height s - paddle_height s - 1)"
    by (simp add: in_field_def update_paddle_movement_keeps)
  then show ?thesis
    by (simp add: update_paddle_movement_p1 update_paddle_movement_p2)
qed

lemma paddle_run_reachable:
  "reachable s \<Longrightarrow> \<not> game_over s \<Longrightarrow> \<not> paused s \<Longrightarrow> reachable (paddle_run ts s)"
proof (induction ts arbitrary: s)
  case Nil
  then show ?case by simp
next
  case (Cons t ts)
  have "reachable (update_paddle_movement t s)"
    using Cons.prems by (intro r_paddle)
  then show ?case
    using Cons.prems by (simp add: Cons.IH update_paddle_movement_keeps)
qed

lemma holding_down_fields:
  "height holding_down = 24" "paddle_height holding_down = 5" "p1_y holding_down = 10"
  "p1_velocity holding_down = 0" "last_paddle_update holding_down = 0"
  "p1_moving_down holding_down" "\<not> p1_moving_up holding_down"
  "paddle_speed holding_down = 15" "paddle_acceleration holding_down = 50"
  "\<not> game_over holding_down" "\<not> paused holding_down" "single_player holding_down"
  by (simp_all add: holding_down_def press_s_def input_defs scenario_def reset_defs table_defs Let_def)

lemma scenario_reachable: "reachable scenario"
  unfolding scenario_def by (rule r_init) simp_all

lemma holding_down_reachable: "reachable holding_down"
  unfolding holding_down_def by (rule r_input) (rule scenario_reachable)

lemma near_bottom_reachable: "reachable near_bottom"
  unfolding near_bottom_def
  by (rule paddle_run_reachable) (simp_all add: holding_down_reachable holding_down_fields)

lemma paddle_run_keeps:
  "height (paddle_run ts s) = height s"
  "paddle_height (paddle_run ts s) = paddle_height s"
  "paddle_speed (paddle_run ts s) = paddle_speed s"
  "paddle_acceleration (paddle_run ts s) = paddle_acceleration s"
  "p1_moving_up (paddle_run ts s) = p1_moving_up s"
  "p1_moving_down (paddle_run ts s) = p1_moving_down s"
  "single_player (paddle_run ts s) = single_player s"
  by (induction ts arbitrary: s) (simp_all add: update_paddle_movement_keeps)

lemma near_bottom_fields:
  "p1_y near_bottom = 35 / 2" "p1_velocity near_bottom = 15"
  "last_paddle_update near_bottom = 6 / 10"
  "height near_bottom = 24" "paddle_height near_bottom = 5"
  "paddle_speed near_bottom = 15" "paddle_acceleration near_bottom = 50"
  "p1_moving_down near_bottom" "\<not> p1_moving_up near_bottom" "single_player near_bottom"
  unfolding near_bottom_def
  by (simp_all add: update_paddle_movement_def update_p1_def update_p2_def holding_down_fields
      accelerate_def target_velocity_def in_field_def capped_dt_def
      new_p1_velocity_def new_p1_y_def Let_def)

theorem paddle_positions_bounded_witness:
  "reachable near_bottom \<and>
   \<not> in_field near_bottom (new_p1_y near_bottom (capped_dt near_bottom (7 / 10))) \<and>
   p1_y (update_paddle_movement (7 / 10) near_bottom) = 35 / 2 \<and>
   p1_velocity (update_paddle_movement (7 / 10) near_bottom) = 0 \<and>
   p1_y (update_paddle_movement (7 / 10) near_bottom) \<le> 18"
proof -
  have out: "\<not> in_field near_bottom (new_p1_y near_bottom (capped_dt near_bottom (7 / 10)))"
    by (simp add: in_field_def new_p1_y_def new_p1_velocity_def capped_dt_def accelerate_def
        target_velocity_def near_bottom_fields)
  show ?thesis
    using paddle_positions_bounded [OF near_bottom_reachable, of "7 / 10"] out
    by (simp add: near_bottom_reachable near_bottom_fields)
qed

subsection \<open>Mode switch and difficulty cycle\<close>

lemma init_positions:
  "p1_y (init h w a c t) = of_int (h div 2 - 5 div 2)"
  "p2_y (init h w a c t) = of_int (h div 2 - 5 div 2)"
  "ball_x (init h w a c t) = of_int (w div 2)"
  "ball_y (init h w a c t) = of_int (h div 2)"
  by (simp_all add: reset_defs Let_def)

lemma reset_game_fields:
  "p1_score (reset_game a c t s) = 0" "p2_score (reset_game a c t s) = 0"
  "p1_y (reset_game a c t s) = of_int (height s div 2 - 5 div 2)"
  "p2_y (reset_game a c t s) = of_int (height s div 2 - 5 div 2)"
  "p1_velocity (reset_game a c t s) = 0" "p2_velocity (reset_game a c t s) = 0"
  "ball_x (reset_game a c t s) = of_int (width s div 2)"
  "ball_y (reset_game a c t s) = of_int (height s div 2)"
  "game_over (reset_game a c t s) = False" "winner (reset_game a c t s) = None"
  "paused (reset_game a c t s) = False"
  "current_difficulty (reset_game a c t s) = current_difficulty s"
  "ball_speed (reset_game a c t s) = ball_speed s"
  "ai_speed (reset_game a c t s) = ai_speed s"
  "ai_prediction (reset_game a c t s) = ai_prediction s"
  "single_player (reset_game a c t s) = single_player s"
  "height (reset_game a c t s) = height s" "width (reset_game a c t s) = width s"
  by (simp_all add: reset_game_def reset_ball_def Let_def)

lemma mode_key:
  assumes "key = ord_of CHR ''m'' \<or> key = ord_of CHR ''M''"
  shows "handle_key t (key, a, c) s =
     (if game_over s
      then s\<lparr>single_player := \<not> single_player s, show_mode_change := True, mode_change_time := t\<rparr>
      else reset_game a c t
        (s\<lparr>single_player := \<not> single_player s, show_mode_change := True, mode_change_time := t\<rparr>))"
  using assms by (auto simp: handle_key_def Let_def)

lemma difficulty_key:
  assumes "key = ord_of CHR ''d'' \<or> key = ord_of CHR ''D''"
  shows "handle_key t (key, a, c) s = cycle_difficulty a c t s"
  using assms by (auto simp: handle_key_def ord_of_def)

lemma cycle_difficulty_unfold:
  "cycle_difficulty a c t s =
     (if game_over s
      then (update_difficulty_settings (s\<lparr>current_difficulty := (current_difficulty s + 1) mod 3\<rparr>))
             \<lparr>show_difficulty_change := True, difficulty_change_time := t\<rparr>
      else reset_game a c t
             ((update_difficulty_settings (s\<lparr>current_difficulty := (current_difficulty s + 1) mod 3\<rparr>))
                \<lparr>show_difficulty_change := True, difficulty_change_time := t\<rparr>))"
  by (simp add: cycle_difficulty_def Let_def difficulty_levels_def update_difficulty_settings_def)

text \<open>C9: when the game is not over, the key \<open>m\<close> or \<open>d\<close> (either case) resets the game: both
  scores are 0, paddles and ball are where \<open>__init__\<close> puts them, the paddles are at rest.
  When the game is over the same key resets nothing. In both cases \<open>d\<close> moves to the next
  difficulty and recomputes the ball interval and the two AI multipliers from it.\<close>

theorem mode_or_difficulty_key_resets:
  assumes k: "key = ord_of CHR ''m'' \<or> key = ord_of CHR ''M'' \<or>
              key = ord_of CHR ''d'' \<or> key = ord_of CHR ''D''"
  shows "(\<not> game_over s \<longrightarrow>
            p1_score (handle_key t (key, a, c) s) = 0 \<and>
            p2_score (handle_key t (key, a, c) s) = 0 \<and>
            p1_y (handle_key t (key, a, c) s) = p1_y (init (height s) (width s) a c t) \<and>
            p2_y (handle_key t (key, a, c) s) = p2_y (init (height s) (width s) a c t) \<and>
            ball_x (handle_key t (key, a, c) s) = ball_x (init (height s) (width s) a c t) \<and>
            ball_y (handle_key t (key, a, c) s) = ball_y (init (height s) (width s) a c t) \<and>
            p1_velocity (handle_key t (key, a, c) s) = 0 \<and>
            p2_velocity (handle_key t (key, a, c) s) = 0 \<and>
            \<not> game_over (handle_key t (key, a, c) s) \<and>
            winner (handle_key t (key, a, c) s) = None) \<and>
         (game_over s \<longrightarrow>
            p1_score (handle_key t (key, a, c) s) = p1_score s \<and>
            p2_score (handle_key t (key, a, c) s) = p2_score s \<and>
            p1_y (handle_key t (key, a, c) s) = p1_y s \<and>
            p2_y (handle_key t (key, a, c) s) = p2_y s \<and>
            ball_x (handle_key t (key, a, c) s) = ball_x s \<and>
            ball_y (handle_key t (key, a, c) s) = ball_y s \<and>
            game_over (handle_key t (key, a, c) s) \<and>
            winner (handle_key t (key, a, c) s) = winner s) \<and>
         (key = ord_of CHR ''d'' \<or> key = ord_of CHR ''D'' \<longrightarrow>
            current_difficulty (handle_key t (key, a, c) s) = (current_difficulty s + 1) mod 3 \<and>
            ball_speed (handle_key t (key, a, c) s) =
              ball_speeds ! current_difficulty (handle_key t (key, a, c) s) \<and>
            ai_speed (handle_key t (key, a, c) s) =
              ai_base_speed * (difficulty_multipliers ! current_difficulty (handle_key t (key, a, c) s)) \<and>
            ai_prediction (handle_key t (key, a, c) s) =
              ai_base_prediction *
                (difficulty_multipliers ! current_difficulty (handle_key t (key, a, c) s)))"
proof (cases "key = ord_of CHR ''m'' \<or> key = ord_of CHR ''M''")
  case True
  then have nd: "\<not> (key = ord_of CHR ''d'' \<or> key = ord_of CHR ''D'')"
    by (auto simp: ord_of_def)
  show ?thesis
    unfolding mode_key [OF True] using nd
    by (simp add: reset_game_fields init_positions)
next
  case False
  with k have d: "key = ord_of CHR ''d'' \<or> key = ord_of CHR ''D''" by blast
  show ?thesis
    unfolding difficulty_key [OF d] cycle_difficulty_unfold
    by (simp add: reset_game_fields init_positions update_difficulty_settings_def Let_def)
qed

theorem mode_or_difficulty_key_resets_witness:
  "\<not> game_over mid_game \<and>
   p1_score (handle_key 9 (ord_of CHR ''d'', 0, False) mid_game) = 0 \<and>
   p2_score (handle_key 9 (ord_of CHR ''d'', 0, False) mid_game) = 0 \<and>
   p1_y (handle_key 9 (ord_of CHR ''d'', 0, False) mid_game) = 10 \<and>
   ball_x (handle_key 9 (ord_of CHR ''d'', 0, False) mid_game) = 40 \<and>
   current_difficulty (handle_key 9 (ord_of CHR ''d'', 0, False) mid_game) = 2 \<and>
   ball_speed (handle_key 9 (ord_of CHR ''d'', 0, False) mid_game) = 1 / 100 \<and>
   game_over finished_game \<and>
   p1_score (handle_key 9 (ord_of CHR ''m'', 0, False) finished_game) = 10 \<and>
   p2_score (handle_key 9 (ord_of CHR ''m'', 0, False) finished_game) = 4 \<and>
   p1_y (handle_key 9 (ord_of CHR ''m'', 0, False) finished_game) = 5 \<and>
   game_over (handle_key 9 (ord_of CHR ''m'', 0, False) finished_game)"
proof -
  have k1: "ord_of CHR ''d'' = ord_of CHR ''m'' \<or> ord_of CHR ''d'' = ord_of CHR ''M'' \<or>
      ord_of CHR ''d'' = ord_of CHR ''d'' \<or> ord_of CHR ''d'' = ord_of CHR ''D''"
    and k2: "ord_of CHR ''m'' = ord_of CHR ''m'' \<or> ord_of CHR ''m'' = ord_of CHR ''M'' \<or>
      ord_of CHR ''m'' = ord_of CHR ''d'' \<or> ord_of CHR ''m'' = ord_of CHR ''D''"
    by simp_all
  have f: "\<not> game_over mid_game" "game_over finished_game"
    "height mid_game = 24" "width mid_game = 80" "current_difficulty mid_game = 1"
    "p1_score finished_game = 10" "p2_score finished_game = 4" "p1_y finished_game = 5"
    by (simp_all add: mid_game_def finished_game_def scenario_fields)
  show ?thesis
    using mode_or_difficulty_key_resets [OF k1, of mid_game 9 0 False]
      mode_or_difficulty_key_resets [OF k2, of finished_game 9 0 False] f
    by (simp add: init_positions ball_speeds_def)
qed

subsection \<open>Held keys\<close>

text \<open>C7: after \<open>handle_input\<close>, a key pressed in this call should be held and its
  counterpart not. The press of \<open>s\<close> clears the flag of \<open>w\<close> but leaves \<open>w\<close> in
  \<open>continuous_keys\<close>, and the release loop sets the flag of every key of that set that has
  not timed out. With \<open>w\<close> then \<open>s\<close> in one call, and with \<open>w\<close> in one call and \<open>s\<close> 20 ms later
  in the next, both flags are set at the end, and so are both movement flags of player 1.\<close>

theorem opposite_keys_both_held:
  "fst (handle_input 1 [press_w, press_s] scenario) \<and>
   key_states (snd (handle_input 1 [press_w, press_s] scenario)) ''w'' \<and>
   key_states (snd (handle_input 1 [press_w, press_s] scenario)) ''s'' \<and>
   p1_moving_up (snd (handle_input 1 [press_w, press_s] scenario)) \<and>
   p1_moving_down (snd (handle_input 1 [press_w, press_s] scenario)) \<and>
   key_states (snd (handle_input (102 / 100) [press_s] (snd (handle_input 1 [press_w] scenario)))) ''w'' \<and>
   key_states (snd (handle_input (102 / 100) [press_s] (snd (handle_input 1 [press_w] scenario)))) ''s''"
  by (simp add: press_w_def press_s_def input_defs scenario_fields Let_def)

subsection \<open>Scores and the end of the game\<close>

lemma speed_le: "d < 3 \<Longrightarrow> base_speed * (difficulty_speed_multipliers ! d) \<le> 14 / 5"
proof -
  assume "d < 3"
  then have "d = 0 \<or> d = 1 \<or> d = 2" by arith
  then show ?thesis
    by (auto simp: base_speed_def difficulty_speed_multipliers_def)
qed

lemma abs_scaled_cos:
  fixes r b x :: real
  assumes "0 \<le> r" "r \<le> b"
  shows "\<bar>r * cos x\<bar> \<le> b"
proof -
  have "\<bar>r * cos x\<bar> = r * \<bar>cos x\<bar>" using assms by (simp add: abs_mult)
  also have "\<dots> \<le> r * 1" using assms by (intro mult_left_mono) (simp_all add: abs_cos_le_one)
  finally show ?thesis using assms by simp
qed

lemma reset_ball_dx_bound:
  assumes "current_difficulty s < 3"
  shows "\<bar>ball_dx (reset_ball a c t s)\<bar> \<le> 14 / 5"
proof -
  have "ball_dx (reset_ball a c t s) =
      base_speed * (difficulty_speed_multipliers ! current_difficulty s)
        * cos (if c then a + pi else a)"
    by (simp add: reset_ball_def Let_def)
  then show ?thesis
    using abs_scaled_cos [OF speed_nonneg [OF assms] speed_le [OF assms]] by (simp only:)
qed

lemma reset_game_fresh:
  assumes "current_difficulty s < 3"
  shows "fresh_game (reset_game a c t s)"
proof -
  let ?u = "s\<lparr>paddle_height := 5, paddle_width := 1,
              p1_y := of_int (height s div 2 - 5 div 2), p1_x := 2, p1_score := 0,
              p1_velocity := 0,
              p2_y := of_int (height s div 2 - 5 div 2), p2_x := width s - 3, p2_score := 0,
              p2_velocity := 0,
              paddle_speed := 15, paddle_acceleration := 50, last_paddle_update := t,
              p1_moving_up := False, p1_moving_down := False,
              p2_moving_up := False, p2_moving_down := False\<rparr>"
  have "ball_dx (reset_game a c t s) = ball_dx (reset_ball a c t ?u)"
    by (simp add: reset_game_def reset_ball_def Let_def)
  moreover have "\<bar>ball_dx (reset_ball a c t ?u)\<bar> \<le> 14 / 5"
    using assms by (intro reset_ball_dx_bound) simp
  ultimately show ?thesis
    by (simp add: fresh_game_def reset_game_fields)
qed

lemma over_or_fresh_frame:
  assumes "still_over s0 s \<or> fresh_game s"
    and "game_over s' = game_over s" "winner s' = winner s"
    and "p1_score s' = p1_score s" "p2_score s' = p2_score s"
    and "ball_x s' = ball_x s" "ball_dx s' = ball_dx s" "width s' = width s"
  shows "still_over s0 s' \<or> fresh_game s'"
  using assms by (auto simp: still_over_def fresh_game_def)

lemma handle_key_over_or_fresh:
  assumes i: "game_inv s" and p: "still_over s0 s \<or> fresh_game s"
  shows "still_over s0 (handle_key t ev s) \<or> fresh_game (handle_key t ev s)"
proof -
  obtain key a c where ev: "ev = (key, a, c)" by (cases ev) auto
  have d: "current_difficulty s < 3" using i by (simp add: game_inv_def)
  consider (m) "key = ord_of CHR ''m'' \<or> key = ord_of CHR ''M''"
    | (d) "key = ord_of CHR ''d'' \<or> key = ord_of CHR ''D''"
    | (other) "\<not> (key = ord_of CHR ''m'' \<or> key = ord_of CHR ''M'')"
        "\<not> (key = ord_of CHR ''d'' \<or> key = ord_of CHR ''D'')"
    by blast
  then show ?thesis
  proof cases
    case m
    let ?s1 = "s\<lparr>single_player := \<not> single_player s, show_mode_change := True,
                  mode_change_time := t\<rparr>"
    have 1: "still_over s0 ?s1 \<or> fresh_game ?s1"
      using p by (rule over_or_fresh_frame) simp_all
    have 2: "fresh_game (reset_game a c t ?s1)"
      using d by (intro reset_game_fresh) simp
    show ?thesis
      unfolding ev mode_key [OF m] using 1 2 by simp
  next
    case d
    let ?s3 = "(update_difficulty_settings
        (s\<lparr>current_difficulty := (current_difficulty s + 1) mod 3\<rparr>))
        \<lparr>show_difficulty_change := True, difficulty_change_time := t\<rparr>"
    have 1: "still_over s0 ?s3 \<or> fresh_game ?s3"
      using p by (rule over_or_fresh_frame) (simp_all add: update_difficulty_settings_def Let_def)
    have 2: "fresh_game (reset_game a c t ?s3)"
      by (intro reset_game_fresh) (simp add: update_difficulty_settings_def Let_def)
    show ?thesis
      unfolding ev difficulty_key [OF d] cycle_difficulty_unfold using 1 2 by simp
  next
    case other
    have r: "fresh_game (reset_game a c t s)"
      using d by (rule reset_game_fresh)
    have sp: "still_over s0 (s\<lparr>paused := \<not> paused s\<rparr>) \<or> fresh_game (s\<lparr>paused := \<not> paused s\<rparr>)"
      using p by (rule over_or_fresh_frame) simp_all
    have tr: "still_over s0 (track_key t key s) \<or> fresh_game (track_key t key s)"
      using p by (rule over_or_fresh_frame) (simp_all add: track_key_def split: option.split)
    show ?thesis
      unfolding ev handle_key_def using other p r sp tr by simp
  qed
qed

lemma process_keys_over_or_fresh:
  "game_inv s \<Longrightarrow> still_over s0 s \<or> fresh_game s \<Longrightarrow>
   still_over s0 (snd (process_keys t evs s)) \<or> fresh_game (snd (process_keys t evs s))"
proof (induction evs arbitrary: s)
  case Nil
  then show ?case by simp
next
  case (Cons ev evs)
  show ?case
  proof (cases "fst ev = ord_of CHR ''q'' \<or> fst ev = ord_of CHR ''Q''")
    case True
    then show ?thesis using Cons.prems by simp
  next
    case False
    have "game_inv (handle_key t ev s)" using Cons.prems(1) by (rule handle_key_inv)
    moreover have "still_over s0 (handle_key t ev s) \<or> fresh_game (handle_key t ev s)"
      using Cons.prems by (rule handle_key_over_or_fresh)
    ultimately show ?thesis using False by (simp add: Cons.IH)
  qed
qed

lemma handle_input_over_or_fresh:
  assumes i: "game_inv s" and p: "still_over s0 s \<or> fresh_game s"
  shows "still_over s0 (snd (handle_input t evs s)) \<or> fresh_game (snd (handle_input t evs s))"
proof -
  obtain b s' where pk: "process_keys t evs s = (b, s')" by (cases "process_keys t evs s")
  have 1: "still_over s0 s' \<or> fresh_game s'"
    using process_keys_over_or_fresh [OF i p, of t evs] pk by simp
  have 2: "still_over s0 (release_keys t s') \<or> fresh_game (release_keys t s')"
    using 1 by (rule over_or_fresh_frame) (simp_all add: release_keys_def)
  have 3: "still_over s0 (update_movement_state (release_keys t s')) \<or>
           fresh_game (update_movement_state (release_keys t s'))"
    using 2 by (rule over_or_fresh_frame) (simp_all add: update_movement_state_def Let_def)
  show ?thesis
    using 1 3 by (cases b) (simp_all add: handle_input_def pk)
qed

lemma centre_in_field:
  assumes "60 \<le> (w::int)"
  shows "3 \<le> real_of_int (w div 2) \<and> real_of_int (w div 2) + 3 \<le> real_of_int w"
proof -
  have a: "3 \<le> w div 2" and b: "w div 2 + 3 \<le> w"
    using assms by linarith+
  have "real_of_int 3 \<le> real_of_int (w div 2)"
    using a by (simp only: of_int_le_iff)
  moreover have "real_of_int (w div 2 + 3) \<le> real_of_int w"
    using b by (simp only: of_int_le_iff)
  ultimately show ?thesis by simp
qed

lemma scoring_inside: "\<not> ball_x s < 0 \<Longrightarrow> \<not> of_int (width s) < ball_x s \<Longrightarrow> scoring a c t s = s"
  by (simp add: scoring_def)


lemma update_ball_fresh:
  assumes i: "game_inv s" and f: "fresh_game s"
  shows "game_over (update_ball now a c s) = game_over s \<and>
         winner (update_ball now a c s) = winner s \<and>
         p1_score (update_ball now a c s) = p1_score s \<and>
         p2_score (update_ball now a c s) = p2_score s"
proof (cases "ball_gate_open s now")
  case False
  then show ?thesis by (simp add: update_ball_def)
next
  case True
  let ?t = "paddle_collision (wall_collision (move_ball (s\<lparr>last_ball_move := now\<rparr>)))"
  have w: "60 \<le> width s" using i by (simp add: game_inv_def)
  have x: "ball_x ?t = of_int (width s div 2) + ball_dx s"
    using f by (simp add: paddle_collision_keeps wall_collision_keeps move_ball_def fresh_game_def)
  have "\<bar>ball_dx s\<bar> \<le> 14 / 5" using f by (simp add: fresh_game_def)
  then have dx: "- (14 / 5) \<le> ball_dx s" "ball_dx s \<le> 14 / 5" by linarith+
  have wt: "width ?t = width s"
    by (simp add: paddle_collision_keeps wall_collision_keeps move_ball_def)
  have "\<not> ball_x ?t < 0" and "\<not> of_int (width ?t) < ball_x ?t"
    using centre_in_field [OF w] dx unfolding x wt by linarith+
  then have "scoring a c now ?t = ?t" by (rule scoring_inside)
  then show ?thesis
    using True
    by (simp add: update_ball_open paddle_collision_keeps wall_collision_keeps move_ball_def)
qed

lemma update_ai_paddle_keeps:
  "winner (update_ai_paddle now r n s) = winner s"
  "p1_score (update_ai_paddle now r n s) = p1_score s"
  "p2_score (update_ai_paddle now r n s) = p2_score s"
  by (simp_all add: update_ai_paddle_def Let_def)

lemma update_paddle_movement_result:
  "winner (update_paddle_movement now s) = winner s"
  "p1_score (update_paddle_movement now s) = p1_score s"
  "p2_score (update_paddle_movement now s) = p2_score s"
  by (simp_all add: update_paddle_movement_def update_p1_def update_p2_def Let_def)

lemma draw_keeps:
  "game_over (draw now s) = game_over s" "winner (draw now s) = winner s"
  "p1_score (draw now s) = p1_score s" "p2_score (draw now s) = p2_score s"
  by (simp_all add: draw_def Let_def)

lemma tick_unfold:
  "tick e s =
     (let r = handle_input (t_input e) (keys e) s; s1 = snd r
      in if \<not> fst r then (False, s1)
         else if game_over s1 \<or> paused s1 then (True, draw (t_draw e) s1)
         else
           (let s2 = update_ai_paddle (t_ai e) (ai_roll e) (ai_noise e)
                       (update_ball (t_ball e) (ball_angle e) (ball_coin e) s1)
            in if game_over s2 then (True, draw (t_draw e) s2)
               else (True, draw (t_draw e) (update_paddle_movement (t_paddle e) s2))))"
proof -
  obtain b s1 where h: "handle_input (t_input e) (keys e) s = (b, s1)"
    by (cases "handle_input (t_input e) (keys e) s")
  show ?thesis
    by (cases b)
       (simp_all add: tick_def h Let_def update_ai_paddle_flags update_ball_flags)
qed

lemma tick_from_game_over:
  assumes i: "game_inv s" and g: "game_over s"
  shows "(game_over (snd (tick e s)) \<and> winner (snd (tick e s)) = winner s \<and>
          p1_score (snd (tick e s)) = p1_score s \<and> p2_score (snd (tick e s)) = p2_score s) \<or>
         (\<not> game_over (snd (tick e s)) \<and> winner (snd (tick e s)) = None \<and>
          p1_score (snd (tick e s)) = 0 \<and> p2_score (snd (tick e s)) = 0)"
proof -
  define s1 where "s1 = snd (handle_input (t_input e) (keys e) s)"
  define sb where "sb = update_ball (t_ball e) (ball_angle e) (ball_coin e) s1"
  define s2 where "s2 = update_ai_paddle (t_ai e) (ai_roll e) (ai_noise e) sb"
  have i1: "game_inv s1" unfolding s1_def using i by (rule handle_input_inv)
  have "still_over s s \<or> fresh_game s" using g by (simp add: still_over_def)
  then have p1: "still_over s s1 \<or> fresh_game s1"
    unfolding s1_def using i by (intro handle_input_over_or_fresh)
  have t: "snd (tick e s) =
      (if \<not> fst (handle_input (t_input e) (keys e) s) then s1
       else if game_over s1 \<or> paused s1 then draw (t_draw e) s1
       else if game_over s2 then draw (t_draw e) s2
       else draw (t_draw e) (update_paddle_movement (t_paddle e) s2))"
    by (simp add: tick_unfold Let_def s1_def s2_def sb_def)
  from p1 show ?thesis
  proof
    assume o: "still_over s s1"
    then show ?thesis
      unfolding t by (simp add: still_over_def draw_keeps)
  next
    assume f: "fresh_game s1"
    have b: "game_over sb = game_over s1 \<and> winner sb = winner s1 \<and>
             p1_score sb = p1_score s1 \<and> p2_score sb = p2_score s1"
      unfolding sb_def using i1 f by (rule update_ball_fresh)
    have q1: "\<not> game_over s1 \<and> winner s1 = None \<and> p1_score s1 = 0 \<and> p2_score s1 = 0"
      using f by (simp add: fresh_game_def)
    have q2: "\<not> game_over s2 \<and> winner s2 = None \<and> p1_score s2 = 0 \<and> p2_score s2 = 0"
      unfolding s2_def using b q1 by (simp add: update_ai_paddle_keeps update_ai_paddle_flags)
    show ?thesis
      unfolding t using q1 q2
      by (simp add: draw_keeps update_paddle_movement_result update_paddle_movement_keeps)
  qed
qed

text \<open>C10: in every reachable state both scores are between 0 and \<open>target_score\<close> and
  \<open>winner\<close> is set exactly when \<open>game_over\<close> is. When the game is over, an iteration of \<open>run\<close>
  either leaves the game over with both scores and the winner as they were, or a reset
  has cleared the flag and the winner and put both scores to 0.\<close>

theorem scores_bounded_and_frozen_when_over:
  assumes r: "reachable s"
  shows "0 \<le> p1_score s \<and> p1_score s \<le> target_score s \<and>
         0 \<le> p2_score s \<and> p2_score s \<le> target_score s \<and>
         (winner s \<noteq> None \<longleftrightarrow> game_over s) \<and>
         (game_over s \<longrightarrow>
            (if game_over (snd (tick e s))
             then p1_score (snd (tick e s)) = p1_score s \<and>
                  p2_score (snd (tick e s)) = p2_score s \<and>
                  winner (snd (tick e s)) = winner s
             else winner (snd (tick e s)) = None \<and>
                  p1_score (snd (tick e s)) = 0 \<and> p2_score (snd (tick e s)) = 0))"
proof -
  have i: "game_inv s" using r by (rule reachable_inv)
  then have a: "0 \<le> p1_score s \<and> p1_score s \<le> target_score s \<and>
         0 \<le> p2_score s \<and> p2_score s \<le> target_score s \<and>
         (winner s \<noteq> None \<longleftrightarrow> game_over s)"
    unfolding game_inv_def by blast
  show ?thesis
  proof (cases "game_over s")
    case True
    then show ?thesis using a tick_from_game_over [OF i True, of e] by auto
  next
    case False
    then show ?thesis using a by simp
  qed
qed

lemma ball_run_reachable: "reachable s \<Longrightarrow> reachable (ball_run n s)"
proof (induction n arbitrary: s)
  case 0
  then show ?case by simp
next
  case (Suc n)
  show ?case
  proof (cases "game_over s \<or> paused s")
    case True
    then show ?thesis using Suc.prems by simp
  next
    case False
    then have "reachable (update_ball (last_ball_move s + 1) 0 True s)"
      using Suc.prems by (intro r_ball) simp_all
    then show ?thesis using False by (simp add: Suc.IH)
  qed
qed

lemma points_reachable: "reachable s \<Longrightarrow> reachable (points k s)"
  by (induction k arbitrary: s) (simp_all add: ball_run_reachable)

lemmas ball_eval = update_ball_def ball_gate_open_def move_ball_def wall_collision_def
  paddle_collision_def left_paddle_collision_def right_paddle_collision_def left_hit_def
  right_hit_def scoring_def reset_ball_def py_round_def Let_def base_speed_def
  difficulty_speed_multipliers_def

lemma fly_step:
  assumes f: "flying_left x s" and x: "2 \<le> x" "x \<le> 30"
  shows "flying_left (x - 2) (update_ball (last_ball_move s + 1) 0 True s) \<and>
         p2_score (update_ball (last_ball_move s + 1) 0 True s) = p2_score s"
  using f x unfolding flying_left_def by (simp add: ball_eval)

lemma fly_out:
  assumes f: "flying_left 0 s" and p: "p2_score s < 9"
  shows "flying_left 30 (update_ball (last_ball_move s + 1) 0 True s) \<and>
         p2_score (update_ball (last_ball_move s + 1) 0 True s) = p2_score s + 1"
  using f p unfolding flying_left_def by (simp add: ball_eval)

lemma fly_out_last:
  assumes f: "flying_left 0 s" and p: "p2_score s = 9"
  shows "game_over (update_ball (last_ball_move s + 1) 0 True s) \<and>
         winner (update_ball (last_ball_move s + 1) 0 True s) = Some ''Player 2'' \<and>
         p1_score (update_ball (last_ball_move s + 1) 0 True s) = 0 \<and>
         p2_score (update_ball (last_ball_move s + 1) 0 True s) = 10"
  using f p unfolding flying_left_def by (simp add: ball_eval)

lemma fly_then:
  assumes "flying_left x s" and "x = 2 * real k" and "x \<le> 30"
    and "\<And>u. flying_left 0 u \<Longrightarrow> p2_score u = p2_score s \<Longrightarrow>
           P (update_ball (last_ball_move u + 1) 0 True u)"
  shows "P (ball_run (Suc k) s)"
  using assms
proof (induction k arbitrary: x s)
  case 0
  then have "\<not> game_over s" "\<not> paused s" by (simp_all add: flying_left_def)
  then show ?case using 0 by simp
next
  case (Suc k)
  let ?u = "update_ball (last_ball_move s + 1) 0 True s"
  have live: "\<not> game_over s" "\<not> paused s"
    using Suc.prems(1) by (simp_all add: flying_left_def)
  have x: "2 \<le> x" using Suc.prems(2) by simp
  have st: "flying_left (x - 2) ?u \<and> p2_score ?u = p2_score s"
    using Suc.prems(1) x Suc.prems(3) by (rule fly_step)
  have "P (ball_run (Suc k) ?u)"
  proof (rule Suc.IH)
    show "flying_left (x - 2) ?u" using st by simp
    show "x - 2 = 2 * real k" using Suc.prems(2) by simp
    show "x - 2 \<le> 30" using Suc.prems(3) by simp
    show "P (update_ball (last_ball_move u + 1) 0 True u)"
      if "flying_left 0 u" "p2_score u = p2_score ?u" for u
      using that st by (intro Suc.prems(4)) simp_all
  qed
  then show ?case using live by simp
qed

lemma one_point:
  assumes s: "flying_left 30 s" and p: "p2_score s < 9"
  shows "flying_left 30 (ball_run 16 s) \<and> p2_score (ball_run 16 s) = p2_score s + 1"
proof -
  have "flying_left 30 (ball_run (Suc 15) s) \<and> p2_score (ball_run (Suc 15) s) = p2_score s + 1"
    using s
  proof (rule fly_then)
    show "(30::real) = 2 * real (15::nat)" by simp
    show "(30::real) \<le> 30" by simp
    show "flying_left 30 (update_ball (last_ball_move u + 1) 0 True u) \<and>
       p2_score (update_ball (last_ball_move u + 1) 0 True u) = p2_score s + 1"
      if "flying_left 0 u" "p2_score u = p2_score s" for u
      using fly_out [OF that(1)] that(2) p by simp
  qed
  then show ?thesis by simp
qed

lemma last_point:
  assumes s: "flying_left 30 s" and p: "p2_score s = 9"
  shows "game_over (ball_run 16 s) \<and> winner (ball_run 16 s) = Some ''Player 2'' \<and>
         p1_score (ball_run 16 s) = 0 \<and> p2_score (ball_run 16 s) = 10"
proof -
  have "game_over (ball_run (Suc 15) s) \<and> winner (ball_run (Suc 15) s) = Some ''Player 2'' \<and>
         p1_score (ball_run (Suc 15) s) = 0 \<and> p2_score (ball_run (Suc 15) s) = 10"
    using s
  proof (rule fly_then)
    show "(30::real) = 2 * real (15::nat)" by simp
    show "(30::real) \<le> 30" by simp
    show "game_over (update_ball (last_ball_move u + 1) 0 True u) \<and>
         winner (update_ball (last_ball_move u + 1) 0 True u) = Some ''Player 2'' \<and>
         p1_score (update_ball (last_ball_move u + 1) 0 True u) = 0 \<and>
         p2_score (update_ball (last_ball_move u + 1) 0 True u) = 10"
      if "flying_left 0 u" "p2_score u = p2_score s" for u
      using fly_out_last [OF that(1)] that(2) p by simp
  qed
  then show ?thesis by simp
qed

lemma points_score:
  "flying_left 30 s \<Longrightarrow> p2_score s + int k \<le> 9 \<Longrightarrow>
   flying_left 30 (points k s) \<and> p2_score (points k s) = p2_score s + int k"
proof (induction k arbitrary: s)
  case 0
  then show ?case by simp
next
  case (Suc k)
  have 1: "flying_left 30 (ball_run 16 s) \<and> p2_score (ball_run 16 s) = p2_score s + 1"
    using Suc.prems by (intro one_point) simp_all
  have "flying_left 30 (points k (ball_run 16 s)) \<and>
        p2_score (points k (ball_run 16 s)) = p2_score (ball_run 16 s) + int k"
    using 1 Suc.prems(2) by (intro Suc.IH) simp_all
  then show ?case using 1 by simp
qed

lemma dodging_flying: "flying_left 30 dodging \<and> p2_score dodging = 0"
  unfolding dodging_def flying_left_def
  by (simp add: press_w_def input_defs reset_defs table_defs Let_def
      update_paddle_movement_def update_p1_def update_p2_def new_p1_y_def new_p1_velocity_def
      accelerate_def target_velocity_def in_field_def capped_dt_def)

lemma dodging_reachable: "reachable dodging"
proof -
  have "reachable (init 20 60 0 True 0)" by (rule r_init) simp_all
  then have r: "reachable (snd (handle_input 0 [press_w] (init 20 60 0 True 0)))"
    by (rule r_input)
  have "\<not> game_over (snd (handle_input 0 [press_w] (init 20 60 0 True 0)))"
    and "\<not> paused (snd (handle_input 0 [press_w] (init 20 60 0 True 0)))"
    by (simp_all add: press_w_def input_defs reset_defs Let_def)
  with r show ?thesis unfolding dodging_def by (intro paddle_run_reachable)
qed

lemma match_end_reachable: "reachable match_end"
  unfolding match_end_def
  by (intro ball_run_reachable points_reachable dodging_reachable)

lemma match_end_fields:
  "game_over match_end" "winner match_end = Some ''Player 2''"
  "p1_score match_end = 0" "p2_score match_end = 10"
proof -
  have "flying_left 30 (points 9 dodging) \<and> p2_score (points 9 dodging) = p2_score dodging + int 9"
    using dodging_flying by (intro points_score) simp_all
  then have "flying_left 30 (points 9 dodging)" "p2_score (points 9 dodging) = 9"
    using dodging_flying by simp_all
  then have "game_over (ball_run 16 (points 9 dodging)) \<and>
      winner (ball_run 16 (points 9 dodging)) = Some ''Player 2'' \<and>
      p1_score (ball_run 16 (points 9 dodging)) = 0 \<and>
      p2_score (ball_run 16 (points 9 dodging)) = 10"
    by (rule last_point)
  then show "game_over match_end" "winner match_end = Some ''Player 2''"
    "p1_score match_end = 0" "p2_score match_end = 10"
    by (simp_all add: match_end_def)
qed

lemma idle_tick_keeps_over: "game_over s \<Longrightarrow> game_over (snd (tick idle_tick s))"
  by (simp add: tick_unfold idle_tick_def handle_input_def release_keys_def
      update_movement_state_def draw_keeps Let_def)

lemma restart_tick_restarts:
  assumes i: "game_inv s" and g: "game_over s"
  shows "\<not> game_over (snd (tick restart_tick s))"
proof -
  define s1 where "s1 = update_movement_state (release_keys 200 (reset_game 0 False 200 s))"
  have h: "handle_input (t_input restart_tick) (keys restart_tick) s = (True, s1)"
    using g
    by (simp add: restart_tick_def idle_tick_def handle_input_def handle_key_def ord_of_def s1_def)
  have d: "current_difficulty s < 3" using i by (simp add: game_inv_def)
  have "still_over s (reset_game 0 False 200 s) \<or> fresh_game (reset_game 0 False 200 s)"
    using reset_game_fresh [OF d] by simp
  then have "still_over s (release_keys 200 (reset_game 0 False 200 s)) \<or>
      fresh_game (release_keys 200 (reset_game 0 False 200 s))"
    by (rule over_or_fresh_frame) (simp_all add: release_keys_def)
  then have "still_over s s1 \<or> fresh_game s1"
    unfolding s1_def
    by (rule over_or_fresh_frame) (simp_all add: update_movement_state_def Let_def)
  moreover have n1: "\<not> game_over s1"
    by (simp add: s1_def update_movement_state_def release_keys_def reset_game_fields Let_def)
  ultimately have f1: "fresh_game s1" by (simp add: still_over_def)
  have i1: "game_inv s1"
    using handle_input_inv [OF i, of "t_input restart_tick" "keys restart_tick"] h by simp
  have b: "\<not> game_over (update_ball now a c s1)" for now a c
    using update_ball_fresh [OF i1 f1, of now a c] n1 by simp
  show ?thesis
    using n1 b
    by (simp add: tick_unfold h Let_def draw_keeps update_ai_paddle_flags
        update_paddle_movement_keeps)
qed

theorem scores_bounded_and_frozen_when_over_witness:
  "reachable match_end \<and> game_over match_end \<and>
   p1_score match_end = 0 \<and> p2_score match_end = 10 \<and>
   winner match_end = Some ''Player 2'' \<and>
   game_over (snd (tick idle_tick match_end)) \<and>
   p2_score (snd (tick idle_tick match_end)) = 10 \<and>
   winner (snd (tick idle_tick match_end)) = Some ''Player 2'' \<and>
   \<not> game_over (snd (tick restart_tick match_end)) \<and>
   p2_score (snd (tick restart_tick match_end)) = 0 \<and>
   winner (snd (tick restart_tick match_end)) = None"
proof -
  note r = match_end_reachable
  have i: "game_inv match_end" using r by (rule reachable_inv)
  have g: "game_over match_end" by (rule match_end_fields)
  have idle: "game_over (snd (tick idle_tick match_end))"
    using g by (rule idle_tick_keeps_over)
  have restart: "\<not> game_over (snd (tick restart_tick match_end))"
    using i g by (rule restart_tick_restarts)
  show ?thesis
    using scores_bounded_and_frozen_when_over [OF r, of idle_tick]
      scores_bounded_and_frozen_when_over [OF r, of restart_tick]
      r idle restart
    by (simp add: match_end_fields)
qed

subsection \<open>Acceleration of a held paddle\<close>

lemmas p1_eval = update_paddle_movement_def update_p1_def update_p2_def
  accelerate_def target_velocity_def in_field_def capped_dt_def
  new_p1_velocity_def new_p1_y_def Let_def

text \<open>C6, as stated, fails: in the scenario (80 by 24) player 1 holds down from rest with
  \<open>paddle_speed = 15\<close> and \<open>paddle_acceleration = 50\<close>. After ten frames of 0.1 s the paddle
  has been stopped at the bottom boundary and its velocity is 0, not 15; and a single
  frame that took a whole second counts as 0.1 s and leaves the velocity at 5.\<close>

theorem held_down_one_second_counterexample:
  "p1_moving_down holding_down \<and> \<not> p1_moving_up holding_down \<and>
   paddle_speed holding_down = 15 \<and> paddle_acceleration holding_down = 50 \<and>
   p1_velocity holding_down = 0 \<and> last_paddle_update holding_down = 0 \<and>
   p1_velocity (paddle_run ten_frames holding_down) = 0 \<and>
   p1_velocity (paddle_run [1] holding_down) = 5"
  by (simp add: ten_frames_def holding_down_fields p1_eval)

lemma accelerate_down:
  assumes v: "v \<le> 15" and dt: "0 \<le> dt"
  shows "accelerate 15 v 50 dt = (if 15 - v \<le> 1 / 10 then 15 else min 15 (v + 50 * dt))"
  using v dt by (auto simp: accelerate_def Let_def min_def)

lemma accelerate_down_bounds:
  assumes v: "- 15 \<le> v" "v \<le> 15" and dt: "0 \<le> dt"
  shows "min 15 (v + 50 * dt) \<le> accelerate 15 v 50 dt" and "accelerate 15 v 50 dt \<le> 15"
    and "- 15 \<le> accelerate 15 v 50 dt"
proof -
  have dtp: "0 \<le> 50 * dt" using dt by simp
  show "min 15 (v + 50 * dt) \<le> accelerate 15 v 50 dt"
    and "accelerate 15 v 50 dt \<le> 15" and "- 15 \<le> accelerate 15 v 50 dt"
    unfolding accelerate_down [OF v(2) dt] using v dtp by (simp_all add: min_def)
qed

lemma capped_dt_range: "last_paddle_update s \<le> now \<Longrightarrow> 0 \<le> capped_dt s now"
  by (simp add: capped_dt_def)

lemma capped_elapsed_nonneg: "nondecreasing t ts \<Longrightarrow> 0 \<le> capped_elapsed t ts"
proof (induction ts arbitrary: t)
  case Nil
  then show ?case by simp
next
  case (Cons u us)
  then have "0 \<le> min (u - t) (1 / 10)" and "0 \<le> capped_elapsed u us" by simp_all
  then show ?case by simp
qed

lemma new_p1_velocity_down:
  assumes "p1_moving_down s" "\<not> p1_moving_up s"
    and "paddle_speed s = 15" "paddle_acceleration s = 50"
  shows "new_p1_velocity s dt = accelerate 15 (p1_velocity s) 50 dt"
  using assms by (simp add: new_p1_velocity_def target_velocity_def)

lemma held_down_step:
  assumes down: "p1_moving_down s" "\<not> p1_moving_up s"
    and params: "paddle_speed s = 15" "paddle_acceleration s = 50"
    and v: "\<bar>p1_velocity s\<bar> \<le> 15" and t: "last_paddle_update s \<le> now"
  shows "\<bar>p1_velocity (update_paddle_movement now s)\<bar> \<le> 15"
    and "in_field s (new_p1_y s (capped_dt s now)) \<Longrightarrow>
         min 15 (p1_velocity s + 50 * capped_dt s now) \<le> p1_velocity (update_paddle_movement now s)"
proof -
  have vb: "- 15 \<le> p1_velocity s" "p1_velocity s \<le> 15" using v by linarith+
  have dt: "0 \<le> capped_dt s now" using t by (rule capped_dt_range)
  note nv = new_p1_velocity_down [OF down params]
  note b = accelerate_down_bounds [OF vb dt]
  show "\<bar>p1_velocity (update_paddle_movement now s)\<bar> \<le> 15"
    using b(2,3) by (simp add: update_paddle_movement_p1 nv abs_le_iff)
  show "min 15 (p1_velocity s + 50 * capped_dt s now) \<le> p1_velocity (update_paddle_movement now s)"
    if "in_field s (new_p1_y s (capped_dt s now))"
    using that b(1) by (simp add: update_paddle_movement_p1 nv)
qed

lemma held_down_run:
  assumes "p1_moving_down s" "\<not> p1_moving_up s"
    and "paddle_speed s = 15" "paddle_acceleration s = 50"
    and "\<bar>p1_velocity s\<bar> \<le> 15" and "nondecreasing (last_paddle_update s) ts"
  shows "\<bar>p1_velocity (paddle_run ts s)\<bar> \<le> 15 \<and>
         (p1_unobstructed ts s \<longrightarrow>
            min 15 (p1_velocity s + 50 * capped_elapsed (last_paddle_update s) ts)
              \<le> p1_velocity (paddle_run ts s))"
  using assms
proof (induction ts arbitrary: s)
  case Nil
  then show ?case by simp
next
  case (Cons t ts)
  let ?s' = "update_paddle_movement t s"
  have t: "last_paddle_update s \<le> t" and nd: "nondecreasing t ts"
    using Cons.prems(6) by simp_all
  have v': "\<bar>p1_velocity ?s'\<bar> \<le> 15"
    using Cons.prems(1-5) t by (rule held_down_step(1))
  have IH: "\<bar>p1_velocity (paddle_run ts ?s')\<bar> \<le> 15 \<and>
         (p1_unobstructed ts ?s' \<longrightarrow>
            min 15 (p1_velocity ?s' + 50 * capped_elapsed t ts) \<le> p1_velocity (paddle_run ts ?s'))"
    using Cons.IH [of ?s'] Cons.prems(1-4) v' nd by (simp add: update_paddle_movement_keeps)
  have e: "0 \<le> capped_elapsed t ts" using nd by (rule capped_elapsed_nonneg)
  have "min 15 (p1_velocity s + 50 * capped_elapsed (last_paddle_update s) (t # ts))
          \<le> p1_velocity (paddle_run ts ?s')"
    if u: "p1_unobstructed (t # ts) s"
  proof -
    from u have inf: "in_field s (new_p1_y s (capped_dt s t))" and u': "p1_unobstructed ts ?s'"
      by simp_all
    have 1: "min 15 (p1_velocity s + 50 * capped_dt s t) \<le> p1_velocity ?s'"
      using Cons.prems(1-5) t inf by (rule held_down_step(2))
    have 2: "min 15 (p1_velocity ?s' + 50 * capped_elapsed t ts) \<le> p1_velocity (paddle_run ts ?s')"
      using IH u' by simp
    have "min 15 (p1_velocity s + 50 * (capped_dt s t + capped_elapsed t ts))
            \<le> min 15 (p1_velocity ?s' + 50 * capped_elapsed t ts)"
      using 1 e by (simp add: min_def split: if_splits)
    with 2 show ?thesis by (simp add: capped_dt_def)
  qed
  with IH show ?case by simp
qed

text \<open>C6, amended: player 1 holds down, \<open>paddle_speed = 15\<close>, \<open>paddle_acceleration = 50\<close>, the
  velocity starts within \<open>[-15, 15]\<close> and the clock does not go back. Each step first moves
  the velocity toward 15 by 50 times the time step capped at 0.1 s, and sets it to exactly
  15 on overshoot or when the gap is at most 0.1; the step keeps that velocity when the new
  position is inside the field and sets it to 0 otherwise. The velocity never exceeds 15
  in magnitude. When no step of the run is refused at a boundary and the capped time
  steps total at least one second, the final velocity is exactly 15.\<close>

theorem held_down_reaches_speed:
  assumes down: "p1_moving_down s" "\<not> p1_moving_up s"
    and params: "paddle_speed s = 15" "paddle_acceleration s = 50"
    and v: "\<bar>p1_velocity s\<bar> \<le> 15"
    and clock: "nondecreasing (last_paddle_update s) (now # ts)"
  shows "new_p1_velocity s (capped_dt s now) =
           (if 15 - p1_velocity s \<le> 1 / 10 then 15
            else min 15 (p1_velocity s + 50 * capped_dt s now)) \<and>
         p1_velocity (update_paddle_movement now s) =
           (if in_field s (new_p1_y s (capped_dt s now))
            then new_p1_velocity s (capped_dt s now) else 0) \<and>
         \<bar>p1_velocity (paddle_run (now # ts) s)\<bar> \<le> 15 \<and>
         (p1_unobstructed (now # ts) s \<and> 1 \<le> capped_elapsed (last_paddle_update s) (now # ts)
            \<longrightarrow> p1_velocity (paddle_run (now # ts) s) = 15)"
proof -
  have t: "last_paddle_update s \<le> now" using clock by simp
  have vb: "p1_velocity s \<le> 15" using v by linarith
  have a: "new_p1_velocity s (capped_dt s now) =
           (if 15 - p1_velocity s \<le> 1 / 10 then 15
            else min 15 (p1_velocity s + 50 * capped_dt s now))"
    unfolding new_p1_velocity_down [OF down params]
    using vb capped_dt_range [OF t] by (rule accelerate_down)
  note run = held_down_run [OF down params v clock]
  have c: "p1_velocity (paddle_run (now # ts) s) = 15"
    if u: "p1_unobstructed (now # ts) s"
      and e: "1 \<le> capped_elapsed (last_paddle_update s) (now # ts)"
  proof -
    have "- 15 \<le> p1_velocity s" using v by linarith
    with e have "15 \<le> p1_velocity s + 50 * capped_elapsed (last_paddle_update s) (now # ts)"
      by linarith
    then have "15 \<le> p1_velocity (paddle_run (now # ts) s)"
      using run u by (simp add: min_def split: if_splits)
    moreover have "p1_velocity (paddle_run (now # ts) s) \<le> 15"
      using run by linarith
    ultimately show ?thesis by simp
  qed
  show ?thesis
    using a run c by (simp add: update_paddle_movement_p1)
qed

theorem held_down_reaches_speed_witness:
  "p1_moving_down holding_down_tall \<and> \<not> p1_moving_up holding_down_tall \<and>
   paddle_speed holding_down_tall = 15 \<and> paddle_acceleration holding_down_tall = 50 \<and>
   \<bar>p1_velocity holding_down_tall\<bar> \<le> 15 \<and>
   nondecreasing (last_paddle_update holding_down_tall) ten_frames \<and>
   p1_unobstructed ten_frames holding_down_tall \<and>
   capped_elapsed (last_paddle_update holding_down_tall) ten_frames = 1 \<and>
   p1_velocity (update_paddle_movement (1 / 10) holding_down_tall) = 5 \<and>
   p1_velocity (paddle_run ten_frames holding_down_tall) = 15"
proof -
  have f: "p1_moving_down holding_down_tall" "\<not> p1_moving_up holding_down_tall"
    "paddle_speed holding_down_tall = 15" "paddle_acceleration holding_down_tall = 50"
    "p1_velocity holding_down_tall = 0" "last_paddle_update holding_down_tall = 0"
    "height holding_down_tall = 40" "paddle_height holding_down_tall = 5"
    "p1_y holding_down_tall = 18" "single_player holding_down_tall"
    by (simp_all add: holding_down_tall_def press_s_def input_defs reset_defs table_defs Let_def)
  have v: "\<bar>p1_velocity holding_down_tall\<bar> \<le> 15" by (simp add: f)
  have c: "nondecreasing (last_paddle_update holding_down_tall) (1 / 10 # tl ten_frames)"
    by (simp add: ten_frames_def f)
  have u: "p1_unobstructed ten_frames holding_down_tall"
    by (simp add: ten_frames_def f p1_eval)
  have e: "capped_elapsed (last_paddle_update holding_down_tall) ten_frames = 1"
    by (simp add: ten_frames_def f)
  have l: "1 / 10 # tl ten_frames = ten_frames" by (simp add: ten_frames_def)
  have nd: "nondecreasing 0 ten_frames" by (simp add: ten_frames_def)
  show ?thesis
    using held_down_reaches_speed [OF f(1-4) v c] u e nd
    unfolding l
    by (simp add: f in_field_def new_p1_y_def capped_dt_def)
qed

subsection \<open>Pause\<close>






























subsection \<open>Paddle hits in \<open>update_ball\<close>\<close>











end
